theory Spec2Isabelle
  imports Main "HOL-Library.Word"
begin

section \<open>Data of the load generator\<close>

text \<open>
  The two commands of \<^verbatim>\<open>cmd/tester/cmd\<close>: the multi-chain command
  \<^verbatim>\<open>IBCMuiltTransferCmd\<close> with its helpers \<^verbatim>\<open>SrcChainsend\<close> and
  \<^verbatim>\<open>DstChainsend\<close> (ibcmuilttransfer.go) and the single-chain command
  \<^verbatim>\<open>IBCtransferCmd\<close>. Go's \<^verbatim>\<open>int64\<close>, \<^verbatim>\<open>uint64\<close> and
  \<^verbatim>\<open>uint32\<close> are words, so \<open>+\<close> and \<open>-\<close> wrap as in Go. Go's \<^verbatim>\<open>int\<close>
  (64 bits) is modelled by \<open>int\<close>: \<^verbatim>\<open>strconv.Atoi\<close> only returns values of that
  range, and the two counters \<^verbatim>\<open>i\<close> and \<^verbatim>\<open>sent\<close> are incremented only while
  they are below such a value, so they never wrap.
\<close>

type_synonym int64 = "64 word"
type_synonym uint64 = "64 word"
type_synonym uint32 = "32 word"

text \<open>\<^verbatim>\<open>config.IBCchain\<close>, with the fields the commands read.\<close>

record IBCchain =
  ChainId :: string
  Rpc :: string
  Grpc :: string
  TokenDenom :: string
  AccountHD :: string
  AccountaddrPrefix :: string
  DstAddress :: string

text \<open>\<^verbatim>\<open>config.Config\<close>: \<open>Chains\<close> is \<^verbatim>\<open>cfg.IBCconfig.Chains\<close>, the other
  fields are those of \<^verbatim>\<open>cfg.Custom\<close>.\<close>

record Config =
  Chains :: "IBCchain list"
  Mnemonics :: "string list"
  GasLimit :: int
  FeeAmount :: int
  Memo :: string

text \<open>\<^verbatim>\<open>grpc.OpenChannel\<close>, one entry of the routing table.\<close>

record OpenChannel =
  ClientChainId :: string
  ChannelId :: string

record Coin =
  Denom :: string
  Amount :: int

text \<open>What \<^verbatim>\<open>RPC.Block\<close> returns, as far as it is read: \<^verbatim>\<open>r.Block.Time\<close>
  (nanoseconds) and \<^verbatim>\<open>len(r.Block.Txs)\<close>.\<close>

record BlockInfo =
  BlockTime :: int
  TxCount :: nat

type_synonym Msgs = "string list"
type_synonym TxBytes = "8 word list"

text \<open>Every \<^verbatim>\<open>return err\<close> of the source is one constructor; \<open>PanicIndex\<close> is Go's
  run-time panic of an index out of range, \<open>PanicNewCoin\<close> the panic of
  \<^verbatim>\<open>sdktypes.NewCoin\<close>.\<close>

datatype error =
    ErrArgs
  | ErrSetLogger
  | ErrConfigRead
  | ErrSrcChainMissing
  | ErrDstChainMissing
  | ErrMnemonicCount
  | ErrConnect
  | ErrChainsTrace
  | ErrChainID
  | ErrParseCoin
  | ErrMnemonic
  | ErrBlocksNotInt
  | ErrTxNumNotInt
  | ErrMsgNumNotInt
  | ErrAccountInfo
  | ErrGetStatus
  | ErrWaitForHeight
  | ErrCreateMsg
  | ErrSign
  | ErrBroadcast
  | ErrBlock
  | PanicIndex
  | PanicNewCoin

datatype level = Debug | Info | Warn

datatype logval = I64 int64 | IntV int | StrV string | TimeV int | DurV int

text \<open>
  What a run does to the outside, in order. \<open>Log\<close> is a zerolog record: level, message
  (the format string for \<^verbatim>\<open>Msgf\<close>) and the fields or format arguments.
  \<open>EvRecover m\<close> is the call of \<^verbatim>\<open>wallet.IBCRecoverAccountFromMnemonic\<close> with
  mnemonic \<open>m\<close>; \<open>EvCreate\<close> the call of \<^verbatim>\<open>tx.CreateTransferBot\<close> with its source port,
  source channel, coin, sender, receiver and message count; \<open>EvSign seq num msgs\<close> the call
  of \<^verbatim>\<open>tx.IbcSign\<close>; \<open>EvBroadcast seq code\<close> a response of
  \<^verbatim>\<open>GRPC.BroadcastTx\<close> with \<^verbatim>\<open>TxResponse.Code = code\<close> for the transaction
  signed with sequence \<open>seq\<close>.
\<close>

datatype event =
    Log level string "(string \<times> logval) list"
  | EvRecover string
  | EvCreate string string Coin string string int
  | EvSign uint64 uint64 Msgs
  | EvBroadcast uint64 uint32

text \<open>
  The chain node and the collaborating packages as one task sees them. A call that can
  fail returns \<open>None\<close> for its error. The calls made repeatedly are indexed by the number
  of earlier calls of the same kind, which covers every node: the program is sequential
  and deterministic between calls.
\<close>

record Node =
  GetNetworkChainID :: "string option"
  ParseCoinNormalized :: "string \<Rightarrow> Coin option"
  IBCDenom :: "string \<Rightarrow> string"
  IBCRecoverAccountFromMnemonic :: "string \<Rightarrow> string \<Rightarrow> string \<Rightarrow> (string \<times> string) option"
  GetBaseAccountInfo :: "(uint64 \<times> uint64) option"
  Status :: "nat \<Rightarrow> int64 option"
  WaitForHeight :: "nat \<Rightarrow> bool"
  BlockAt :: "nat \<Rightarrow> BlockInfo option"
  CreateTransferBot :: "nat \<Rightarrow> Msgs option"
  IbcSign :: "nat \<Rightarrow> TxBytes option"
  BroadcastTx :: "nat \<Rightarrow> uint32 option"

text \<open>The local variables of a send loop that change, the events so far and the number
  of calls made of each kind.\<close>

record state =
  accSeq :: uint64
  targetHeight :: int64
  blockTimes :: "int64 \<rightharpoonup> int"
  events :: "event list"
  nStatus :: nat
  nWait :: nat
  nBlock :: nat
  nCreate :: nat
  nSign :: nat
  nBroadcast :: nat

text \<open>The local variables of a send loop that are fixed when the loop starts.
  \<open>multi\<close> tells the loop of \<^verbatim>\<open>DstChainsend\<close> from the one of
  \<^verbatim>\<open>IBCtransferCmd\<close>: the two are the same text but for their log records.\<close>

record LoopArgs =
  multi :: bool
  srcchainId :: string
  dstchainId :: string
  srcPort :: string
  srcChannel :: string
  receiver :: string
  coin :: Coin
  accAddr :: string
  privKey :: string
  accNum :: uint64
  blocks :: int
  txNum :: int
  msgNum :: int

datatype flow = Return error | Break | Normal

section \<open>Library functions of Go\<close>

text \<open>\<^verbatim>\<open>strconv.Atoi\<close>: an optional sign, then one or more decimal digits, and the
  value must fit a 64-bit \<^verbatim>\<open>int\<close>; anything else is an error.\<close>

definition is_digit :: "char \<Rightarrow> bool" where
  "is_digit c = (48 \<le> (of_char c :: nat) \<and> (of_char c :: nat) \<le> 57)"

definition digit_val :: "char \<Rightarrow> int" where
  "digit_val c = int (of_char c) - 48"

definition digits_val :: "string \<Rightarrow> int" where
  "digits_val ds = foldl (\<lambda>n ch. n * 10 + digit_val ch) 0 ds"

definition Atoi :: "string \<Rightarrow> int option" where
  "Atoi s =
     (case s of
        [] \<Rightarrow> None
      | c # r \<Rightarrow>
          (let ds = (if c = CHR ''-'' \<or> c = CHR ''+'' then r else s) in
           if ds = [] \<or> \<not> list_all is_digit ds then None
           else
             (let n = digits_val ds; v = (if c = CHR ''-'' then - n else n) in
              if - (2 ^ 63) \<le> v \<and> v \<le> 2 ^ 63 - 1 then Some v else None)))"

text \<open>\<^verbatim>\<open>strings.Split(s, ",")\<close>: the pieces between the commas, one more than
  there are commas.\<close>

fun Split :: "string \<Rightarrow> string list" where
  "Split [] = [[]]"
| "Split (c # cs) =
     (if c = CHR '','' then [] # Split cs
      else (case Split cs of [] \<Rightarrow> [[c]] | w # ws \<Rightarrow> (c # w) # ws))"

text \<open>\<^verbatim>\<open>strings.HasPrefix(s, "ibc/")\<close>.\<close>

definition HasPrefix_ibc :: "string \<Rightarrow> bool" where
  "HasPrefix_ibc s = (take 4 s = ''ibc/'')"

text \<open>\<^verbatim>\<open>Time.Sub\<close>: the difference, saturated to the range of a
  \<^verbatim>\<open>Duration\<close>.\<close>

definition time_sub :: "int \<Rightarrow> int \<Rightarrow> int" where
  "time_sub t u = max (- (2 ^ 63)) (min (2 ^ 63 - 1) (t - u))"

text \<open>\<^verbatim>\<open>blocks+1\<close> on Go's \<^verbatim>\<open>int\<close>.\<close>

definition int_succ :: "int \<Rightarrow> int" where
  "int_succ x = (if x = 2 ^ 63 - 1 then - (2 ^ 63) else x + 1)"

text \<open>\<^verbatim>\<open>sdktypes.NewCoin(denom, sdktypes.NewInt(amount))\<close> of the cosmos-sdk (the
  releases that hold \<^verbatim>\<open>x/ibc\<close>, which both files import) validates the coin and
  panics unless the denomination matches \<^verbatim>\<open>[a-zA-Z][a-zA-Z0-9/]{2,127}\<close> and the
  amount is not negative. \<^verbatim>\<open>sdktypes.NewCoins\<close> of that one valid coin does not
  panic.\<close>

definition is_letter :: "char \<Rightarrow> bool" where
  "is_letter c =
     ((65 \<le> (of_char c :: nat) \<and> (of_char c :: nat) \<le> 90) \<or>
      (97 \<le> (of_char c :: nat) \<and> (of_char c :: nat) \<le> 122))"

definition valid_denom :: "string \<Rightarrow> bool" where
  "valid_denom s =
     (case s of
        [] \<Rightarrow> False
      | c # r \<Rightarrow>
          is_letter c \<and> 2 \<le> length r \<and> length r \<le> 127 \<and>
          list_all (\<lambda>x. is_letter x \<or> is_digit x \<or> x = CHR ''/'') r)"

definition NewCoin_panics :: "string \<Rightarrow> int \<Rightarrow> bool" where
  "NewCoin_panics denom amount = (\<not> valid_denom denom \<or> amount < 0)"

text \<open>\<^verbatim>\<open>args[k]\<close> and \<^verbatim>\<open>cfg.Custom.Mnemonics[k]\<close>: \<open>None\<close> is the panic.\<close>

definition index :: "'a list \<Rightarrow> nat \<Rightarrow> 'a option" where
  "index xs k = (if k < length xs then Some (xs ! k) else None)"

section \<open>The send loop\<close>

definition emit :: "event \<Rightarrow> state \<Rightarrow> state" where
  "emit e st = st\<lparr>events := events st @ [e]\<rparr>"

text \<open>The head of an iteration (ibcmuilttransfer.go 231-238, the same text in
  \<^verbatim>\<open>IBCtransferCmd\<close>): query the height and correct the target on a mismatch.\<close>

definition checkDrift :: "Node \<Rightarrow> state \<Rightarrow> error option \<times> state" where
  "checkDrift N st =
     (let st1 = st\<lparr>nStatus := nStatus st + 1\<rparr> in
      case Status N (nStatus st) of
        None \<Rightarrow> (Some ErrGetStatus, st1)
      | Some h \<Rightarrow>
          if h \<noteq> targetHeight st1 - 1
          then (None,
                (emit (Log Warn ''mismatching block height''
                         [(''expected'', I64 (targetHeight st1 - 1)), (''got'', I64 h)]) st1)
                \<lparr>targetHeight := h + 1\<rparr>)
          else (None, st1))"

text \<open>The body of the inner loop (249-265): sign with the current sequence, broadcast,
  take the next sequence; on code \<open>0x14\<close> warn, give the sequence back and leave both
  loops (\<^verbatim>\<open>break loop\<close>). \<open>Normal\<close> means that the body reached its end.\<close>

definition broadcast_one :: "Node \<Rightarrow> LoopArgs \<Rightarrow> Msgs \<Rightarrow> state \<Rightarrow> flow \<times> state" where
  "broadcast_one N a msgs st =
     (let st1 = emit (EvSign (accSeq st) (accNum a) msgs) (st\<lparr>nSign := nSign st + 1\<rparr>) in
      case IbcSign N (nSign st) of
        None \<Rightarrow> (Return ErrSign, st1)
      | Some txByte \<Rightarrow>
          (let st2 = st1\<lparr>nBroadcast := nBroadcast st1 + 1\<rparr> in
           case BroadcastTx N (nBroadcast st1) of
             None \<Rightarrow> (Return ErrBroadcast, st2)
           | Some code \<Rightarrow>
               (let st3 = (emit (EvBroadcast (accSeq st2) code) st2)\<lparr>accSeq := accSeq st2 + 1\<rparr> in
                if code \<noteq> 0 then
                  (if code = 0x14
                   then (Break,
                         (emit (Log Warn ''mempool is full, stopping'' []) st3)
                         \<lparr>accSeq := accSeq st3 - 1\<rparr>)
                   else (Normal, st3))
                else (Normal, st3))))"

text \<open>The inner \<^verbatim>\<open>for sent < txNum\<close> (248-267), with \<^verbatim>\<open>sent++\<close> at the end
  of its body.\<close>

function fill_inner :: "Node \<Rightarrow> LoopArgs \<Rightarrow> Msgs \<Rightarrow> int \<Rightarrow> state \<Rightarrow> flow \<times> int \<times> state" where
  "fill_inner N a msgs sent st =
     (if sent < txNum a then
        (case broadcast_one N a msgs st of
           (Return e, st') \<Rightarrow> (Return e, sent, st')
         | (Break, st') \<Rightarrow> (Break, sent, st')
         | (Normal, st') \<Rightarrow> fill_inner N a msgs (sent + 1) st')
      else (Normal, sent, st))"
  by pat_completeness auto
termination
  by (relation "measure (\<lambda>(N, a, msgs, sent, st). nat (txNum a - sent))") auto

declare fill_inner.simps [simp del]

lemma fill_inner_sent:
  "fill_inner N a msgs sent st = (fl, sent', st') \<Longrightarrow>
     sent \<le> sent' \<and> (fl = Normal \<longrightarrow> txNum a \<le> sent')"
proof (induction N a msgs sent st rule: fill_inner.induct)
  case (1 N a msgs sent st)
  note fill_inner.simps [of N a msgs sent st, simp]
  show ?case
  proof (cases "sent < txNum a")
    case False
    with "1.prems" show ?thesis by simp
  next
    case True
    obtain f st1 where b: "broadcast_one N a msgs st = (f, st1)"
      by (cases "broadcast_one N a msgs st")
    show ?thesis
    proof (cases f)
      case (Return e)
      with True b "1.prems" show ?thesis by auto
    next
      case Break
      with True b "1.prems" show ?thesis by auto
    next
      case Normal
      with True b "1.prems" have "fill_inner N a msgs (sent + 1) st1 = (fl, sent', st')"
        by simp
      from "1.IH" [OF True b [symmetric] Normal this] show ?thesis
        by simp
    qed
  qed
qed

text \<open>The outer \<^verbatim>\<open>loop: for sent < txNum\<close> (243-268): build the messages, run
  the inner loop.\<close>

function fill_outer :: "Node \<Rightarrow> LoopArgs \<Rightarrow> int \<Rightarrow> state \<Rightarrow> error option \<times> int \<times> state" where
  "fill_outer N a sent st =
     (if sent < txNum a then
        (let st1 = emit (EvCreate (srcPort a) (srcChannel a) (coin a) (accAddr a)
                           (receiver a) (msgNum a)) (st\<lparr>nCreate := nCreate st + 1\<rparr>) in
         case CreateTransferBot N (nCreate st) of
           None \<Rightarrow> (Some ErrCreateMsg, sent, st1)
         | Some msgs \<Rightarrow>
             (case fill_inner N a msgs sent st1 of
                (Return e, sent', st2) \<Rightarrow> (Some e, sent', st2)
              | (Break, sent', st2) \<Rightarrow> (None, sent', st2)
              | (Normal, sent', st2) \<Rightarrow> fill_outer N a sent' st2))
      else (None, sent, st))"
  by pat_completeness auto
termination
proof (relation "measure (\<lambda>(N, a, sent, st). nat (txNum a - sent))", goal_cases)
  case 1
  show ?case by simp
next
  case (2 N a sent st st1 msgs fl r sent' st2)
  then have "fill_inner N a msgs sent st1 = (Normal, sent', st2)"
    by simp
  from fill_inner_sent [OF this] have "txNum a \<le> sent'"
    by simp
  with \<open>sent < txNum a\<close> show ?case
    by simp
qed

declare fill_outer.simps [simp del]

text \<open>The tail of an iteration (271-296): wait for the target height, fetch its block,
  compute the duration from the stored time of the height before, store this block's time,
  log, advance.\<close>

definition commitBlock :: "Node \<Rightarrow> LoopArgs \<Rightarrow> int \<Rightarrow> state \<Rightarrow> error option \<times> state" where
  "commitBlock N a sent st =
     (let st1 = st\<lparr>nWait := nWait st + 1\<rparr> in
      if \<not> WaitForHeight N (nWait st) then (Some ErrWaitForHeight, st1)
      else
        (let st2 = st1\<lparr>nBlock := nBlock st1 + 1\<rparr> in
         case BlockAt N (nBlock st1) of
           None \<Rightarrow> (Some ErrBlock, st2)
         | Some r \<Rightarrow>
             (let (blockDuration, st3) =
                    (case blockTimes st2 (targetHeight st2 - 1) of
                       None \<Rightarrow> (0, emit (Log Warn ''past block time not found'' []) st2)
                     | Some bt \<Rightarrow>
                         (time_sub (BlockTime r) bt,
                          st2\<lparr>blockTimes := (blockTimes st2)(targetHeight st2 - 1 := None)\<rparr>));
                  st4 = st3\<lparr>blockTimes := (blockTimes st3)(targetHeight st3 \<mapsto> BlockTime r)\<rparr>;
                  st5 = emit (Log Info ''block committed''
                                ([(''height'', I64 (targetHeight st4))] @
                                 (if multi a
                                  then [(''srcchain'', StrV (srcchainId a)),
                                        (''dstchain'', StrV (dstchainId a))]
                                  else []) @
                                 [(''block-time'', TimeV (BlockTime r)),
                                  (''block-duration'', DurV blockDuration),
                                  (''broadcast-txs'', IntV sent),
                                  (''committed-txs'', IntV (int (TxCount r)))])) st4
              in (None, st5\<lparr>targetHeight := targetHeight st5 + 1\<rparr>))))"

text \<open>The body of the loop over the blocks (231-296). Only \<^verbatim>\<open>IBCtransferCmd\<close>
  logs the time the broadcasting took (the elapsed time itself is not modelled).\<close>

definition iteration :: "Node \<Rightarrow> LoopArgs \<Rightarrow> state \<Rightarrow> error option \<times> state" where
  "iteration N a st =
     (case checkDrift N st of
        (Some e, st1) \<Rightarrow> (Some e, st1)
      | (None, st1) \<Rightarrow>
          (case fill_outer N a 0 st1 of
             (Some e, sent, st2) \<Rightarrow> (Some e, st2)
           | (None, sent, st2) \<Rightarrow>
               commitBlock N a sent
                 (if multi a then st2
                  else emit (Log Debug ''took %s broadcasting txs'' []) st2)))"

text \<open>The loop over the blocks (230-297).\<close>

function block_loop :: "Node \<Rightarrow> LoopArgs \<Rightarrow> int \<Rightarrow> state \<Rightarrow> error option \<times> state" where
  "block_loop N a i st =
     (if i < blocks a then
        (case iteration N a st of
           (Some e, st') \<Rightarrow> (Some e, st')
         | (None, st') \<Rightarrow> block_loop N a (i + 1) st')
      else (None, st))"
  by pat_completeness auto
termination
  by (relation "measure (\<lambda>(N, a, i, st). nat (blocks a - i))") auto

declare block_loop.simps [simp del]

section \<open>Starting a send loop\<close>

definition init_state :: state where
  "init_state =
     \<lparr>accSeq = 0, targetHeight = 0, blockTimes = Map.empty, events = [],
      nStatus = 0, nWait = 0, nBlock = 0, nCreate = 0, nSign = 0, nBroadcast = 0\<rparr>"

text \<open>From the account query to the loop (ibcmuilttransfer.go 210-229, part_000
  118-137): read sequence and account number, take the latest height plus two as the
  starting height, wait for the height before it, run the loop.\<close>

definition enter_loop :: "Node \<Rightarrow> LoopArgs \<Rightarrow> state \<Rightarrow> error option \<times> state" where
  "enter_loop N a st =
     (case GetBaseAccountInfo N of
        None \<Rightarrow> (Some ErrAccountInfo, st)
      | Some (seq, num) \<Rightarrow>
          (let st1 = st\<lparr>accSeq := seq, nStatus := nStatus st + 1\<rparr> in
           case Status N (nStatus st) of
             None \<Rightarrow> (Some ErrGetStatus, st1)
           | Some h \<Rightarrow>
               (let startingHeight = h + 2;
                    st2 = emit (Log Info
                                 (''current block height is %d, waiting for the next block to be committed'' @
                                  (if multi a then '' <%s>'' else ''''))
                                 ([(''%d'', I64 h)] @
                                  (if multi a then [(''%s'', StrV (srcchainId a))] else []))) st1;
                    st3 = st2\<lparr>nWait := nWait st2 + 1\<rparr>
                in
                  if \<not> WaitForHeight N (nWait st2) then (Some ErrWaitForHeight, st3)
                  else
                    (let st4 = emit (Log Info
                                      (''starting simulation #%d, blocks = %d, num txs per block = %d'' @
                                       (if multi a then '' <%s>'' else ''''))
                                      ([(''%d'', IntV (int_succ (blocks a))),
                                        (''%d'', IntV (blocks a)), (''%d'', IntV (txNum a))] @
                                       (if multi a then [(''%s'', StrV (srcchainId a))] else []))) st3
                     in block_loop N (a\<lparr>accNum := num\<rparr>) 0
                          (st4\<lparr>targetHeight := startingHeight\<rparr>)))))"

text \<open>From the parsed arguments to the loop (ibcmuilttransfer.go 206-229, part_000
  111-137). The fee is built first,
  \<^verbatim>\<open>sdktypes.NewCoins(sdktypes.NewCoin(mainchain.TokenDenom, sdktypes.NewInt(cfg.Custom.FeeAmount)))\<close>,
  which panics on an invalid denomination of the chain (the empty one of an unconfigured
  chain among them) and on a negative fee amount. The conversion of
  \<^verbatim>\<open>cfg.Custom.GasLimit\<close>, the memo and \<^verbatim>\<open>tx.IbcNewtransaction\<close> only build
  values and have no branch.\<close>

definition start_loop ::
  "Node \<Rightarrow> Config \<Rightarrow> IBCchain \<Rightarrow> LoopArgs \<Rightarrow> state \<Rightarrow> error option \<times> state" where
  "start_loop N cfg mainchain a st =
     (if NewCoin_panics (TokenDenom mainchain) (FeeAmount cfg) then (Some PanicNewCoin, st)
      else enter_loop N a st)"

text \<open>The routing-table lookup of \<^verbatim>\<open>DstChainsend\<close> (165-176): the three strings
  stay empty when no entry names the destination.\<close>

fun find_route :: "IBCchain \<Rightarrow> OpenChannel list \<Rightarrow> string \<times> string \<times> string" where
  "find_route dst [] = ('''', '''', '''')"
| "find_route dst (i # rest) =
     (if ChainId dst = ClientChainId i then (''transfer'', ChannelId i, DstAddress dst)
      else find_route dst rest)"

text \<open>\<^verbatim>\<open>DstChainsend\<close> (159-299).\<close>

definition DstChainsend ::
  "Node \<Rightarrow> nat \<Rightarrow> IBCchain \<Rightarrow> OpenChannel list \<Rightarrow> IBCchain \<Rightarrow> Config \<Rightarrow> string list
     \<Rightarrow> error option \<times> state" where
  "DstChainsend N accountindex dstchaininfo mainchainibcinfo mainchain cfg args =
     (case GetNetworkChainID N of
        None \<Rightarrow> (Some ErrChainID, init_state)
      | Some chainID \<Rightarrow>
     (case find_route dstchaininfo mainchainibcinfo of (port, channel, rcv) \<Rightarrow>
     (case index args 2 of
        None \<Rightarrow> (Some PanicIndex, init_state)
      | Some amount \<Rightarrow>
     (case ParseCoinNormalized N (amount @ TokenDenom mainchain) of
        None \<Rightarrow> (Some ErrParseCoin, init_state)
      | Some coin0 \<Rightarrow>
     (case index (Mnemonics cfg) accountindex of
        None \<Rightarrow> (Some PanicIndex, init_state)
      | Some mnemonic \<Rightarrow>
     (let st1 = emit (EvRecover mnemonic) init_state in
      case IBCRecoverAccountFromMnemonic N mnemonic (AccountHD mainchain)
             (AccountaddrPrefix mainchain) of
        None \<Rightarrow> (Some ErrMnemonic, st1)
      | Some (addr, key) \<Rightarrow>
     (let coin1 = (if \<not> HasPrefix_ibc (Denom coin0)
                   then coin0\<lparr>Denom := IBCDenom N (Denom coin0)\<rparr> else coin0) in
      case index args 3 of
        None \<Rightarrow> (Some PanicIndex, st1)
      | Some a3 \<Rightarrow>
     (case Atoi a3 of
        None \<Rightarrow> (Some ErrBlocksNotInt, st1)
      | Some blocks' \<Rightarrow>
     (case index args 4 of
        None \<Rightarrow> (Some PanicIndex, st1)
      | Some a4 \<Rightarrow>
     (case Atoi a4 of
        None \<Rightarrow> (Some ErrTxNumNotInt, st1)
      | Some txNum' \<Rightarrow>
     (case index args 5 of
        None \<Rightarrow> (Some PanicIndex, st1)
      | Some a5 \<Rightarrow>
     (case Atoi a5 of
        None \<Rightarrow> (Some ErrMsgNumNotInt, st1)
      | Some msgNum' \<Rightarrow>
          start_loop N cfg mainchain
            \<lparr>multi = True, srcchainId = ChainId mainchain, dstchainId = ChainId dstchaininfo,
             srcPort = port, srcChannel = channel, receiver = rcv, coin = coin1,
             accAddr = addr, privKey = key, accNum = 0,
             blocks = blocks', txNum = txNum', msgNum = msgNum'\<rparr> st1))))))))))))"

section \<open>The commands\<close>

text \<open>A connection made by \<^verbatim>\<open>client.NewClient\<close>: the routing table it reports
  (\<^verbatim>\<open>GRPC.AllChainsTrace\<close>) and, for the \<open>k\<close>-th task that runs on it, the node as
  that task sees it. The tasks of one connection run concurrently; each has its own local
  variables, so a task's run is determined by the responses it gets.\<close>

record Conn =
  AllChainsTrace :: "OpenChannel list option"
  View :: "nat \<Rightarrow> Node"

text \<open>What a command meets outside: whether \<^verbatim>\<open>SetLogger\<close> succeeds, what
  \<^verbatim>\<open>config.Read\<close> returns, and the result of the \<open>k\<close>-th call of
  \<^verbatim>\<open>client.NewClient\<close>.\<close>

record Env =
  SetLoggerOk :: bool
  ConfigRead :: "Config option"
  NewClient :: "nat \<Rightarrow> Conn option"

definition zero_chain :: IBCchain where
  "zero_chain =
     \<lparr>ChainId = '''', Rpc = '''', Grpc = '''', TokenDenom = '''', AccountHD = '''',
      AccountaddrPrefix = '''', DstAddress = ''''\<rparr>"

text \<open>The first configured chain with the given id, the zero value when there is none
  (ibcmuilttransfer.go 114-121).\<close>

fun find_chain :: "IBCchain list \<Rightarrow> string \<Rightarrow> IBCchain" where
  "find_chain [] chainname = zero_chain"
| "find_chain (c # cs) chainname =
     (if ChainId c = chainname then c else find_chain cs chainname)"

text \<open>\<^verbatim>\<open>IBCtransferCmd\<close>, the function under \<^verbatim>\<open>RunE\<close>, after
  \<^verbatim>\<open>cobra.ExactArgs(8)\<close>.\<close>

definition IBCtransferCmd :: "Env \<Rightarrow> string list \<Rightarrow> error option \<times> state" where
  "IBCtransferCmd E args =
     (if length args \<noteq> 8 then (Some ErrArgs, init_state)
      else if \<not> SetLoggerOk E then (Some ErrSetLogger, init_state)
      else
     (case ConfigRead E of
        None \<Rightarrow> (Some ErrConfigRead, init_state)
      | Some cfg \<Rightarrow>
     (let mainchain = find_chain (Chains cfg) (args ! 0) in
      case NewClient E 0 of
        None \<Rightarrow> (Some ErrConnect, init_state)
      | Some conn \<Rightarrow>
     (let N = View conn 0 in
      case GetNetworkChainID N of
        None \<Rightarrow> (Some ErrChainID, init_state)
      | Some chainID \<Rightarrow>
     (case ParseCoinNormalized N (args ! 4) of
        None \<Rightarrow> (Some ErrParseCoin, init_state)
      | Some coin0 \<Rightarrow>
     (let coin1 = (if \<not> HasPrefix_ibc (Denom coin0)
                   then coin0\<lparr>Denom := IBCDenom N (Denom coin0)\<rparr> else coin0) in
      case Atoi (args ! 5) of
        None \<Rightarrow> (Some ErrBlocksNotInt, init_state)
      | Some blocks' \<Rightarrow>
     (case Atoi (args ! 6) of
        None \<Rightarrow> (Some ErrTxNumNotInt, init_state)
      | Some txNum' \<Rightarrow>
     (case Atoi (args ! 7) of
        None \<Rightarrow> (Some ErrMsgNumNotInt, init_state)
      | Some msgNum' \<Rightarrow>
     (case index (Mnemonics cfg) 0 of
        None \<Rightarrow> (Some PanicIndex, init_state)
      | Some mnemonic \<Rightarrow>
     (let st1 = emit (EvRecover mnemonic) init_state in
      case IBCRecoverAccountFromMnemonic N mnemonic (AccountHD mainchain)
             (AccountaddrPrefix mainchain) of
        None \<Rightarrow> (Some ErrMnemonic, st1)
      | Some (addr, key) \<Rightarrow>
          start_loop N cfg mainchain
            \<lparr>multi = False, srcchainId = ChainId mainchain, dstchainId = '''',
             srcPort = args ! 1, srcChannel = args ! 2, receiver = args ! 3, coin = coin1,
             accAddr = addr, privKey = key, accNum = 0,
             blocks = blocks', txNum = txNum', msgNum = msgNum'\<rparr> st1))))))))))"

text \<open>The inner loop of \<^verbatim>\<open>SrcChainsend\<close> over the configured chains (124-132),
  for one destination name.\<close>

fun find_sub :: "IBCchain list \<Rightarrow> string \<Rightarrow> string \<Rightarrow> IBCchain option" where
  "find_sub [] chainname mainId = None"
| "find_sub (c # cs) chainname mainId =
     (if chainname = mainId then None
      else if ChainId c = chainname then Some c
      else find_sub cs chainname mainId)"

definition subchains_of :: "IBCchain list \<Rightarrow> string \<Rightarrow> string list \<Rightarrow> IBCchain list" where
  "subchains_of cfgchains mainId dstchains =
     foldl (\<lambda>subchains chainname.
              case find_sub cfgchains chainname mainId of
                None \<Rightarrow> subchains
              | Some c \<Rightarrow> subchains @ [c]) [] dstchains"

text \<open>A destination task: the arguments \<^verbatim>\<open>SrcChainsend\<close> gives to
  \<^verbatim>\<open>DstChainsend\<close> in the goroutine it starts, and how that call ends.\<close>

record DstTask =
  accountindex :: nat
  dstchaininfo :: IBCchain
  outcome :: "error option \<times> state"

text \<open>\<^verbatim>\<open>SrcChainsend\<close> (113-157). The result lists the destination tasks started;
  the value each \<^verbatim>\<open>DstChainsend\<close> returns is dropped by its goroutine.\<close>

definition SrcChainsend ::
  "Conn option \<Rightarrow> Config \<Rightarrow> string list \<Rightarrow> string \<Rightarrow> string list
     \<Rightarrow> error option \<times> DstTask list" where
  "SrcChainsend client cfg dstchains chainname args =
     (let mainchain = find_chain (Chains cfg) chainname;
          subchains = subchains_of (Chains cfg) (ChainId mainchain) dstchains
      in
        case client of
          None \<Rightarrow> (Some ErrConnect, [])
        | Some conn \<Rightarrow>
            (case AllChainsTrace conn of
               None \<Rightarrow> (Some ErrChainsTrace, [])
             | Some mainchainibcinfo \<Rightarrow>
                 (None,
                  map (\<lambda>(k, info).
                         \<lparr>accountindex = k, dstchaininfo = info,
                          outcome = DstChainsend (View conn k) k info mainchainibcinfo
                                      mainchain cfg args\<rparr>)
                      (enumerate 0 subchains))))"

text \<open>The validation loops of \<^verbatim>\<open>IBCMuiltTransferCmd\<close> (62-69 and 77-84):
  \<^verbatim>\<open>flag\<close> after the loop over the configured chains.\<close>

fun chain_flag :: "bool \<Rightarrow> IBCchain list \<Rightarrow> string \<Rightarrow> bool" where
  "chain_flag flag [] name = flag"
| "chain_flag flag (chain # rest) name =
     (if ChainId chain = name then True else chain_flag False rest name)"

record SrcTask =
  srcchain :: string
  srcOutcome :: "error option \<times> DstTask list"

text \<open>\<^verbatim>\<open>IBCMuiltTransferCmd\<close>, the function under \<^verbatim>\<open>RunE\<close>, after
  \<^verbatim>\<open>cobra.ExactArgs(6)\<close>. The result is the error the command returns once its
  tasks have ended and the source tasks it has started; what \<^verbatim>\<open>SrcChainsend\<close>
  returns is dropped. A task that ends in a panic has that as its outcome; in Go the
  panic of a goroutine ends the process.\<close>

definition IBCMuiltTransferCmd :: "Env \<Rightarrow> string list \<Rightarrow> error option \<times> SrcTask list" where
  "IBCMuiltTransferCmd E args =
     (if length args \<noteq> 6 then (Some ErrArgs, [])
      else if \<not> SetLoggerOk E then (Some ErrSetLogger, [])
      else
        (case ConfigRead E of
           None \<Rightarrow> (Some ErrConfigRead, [])
         | Some cfg \<Rightarrow>
             (let srcchains = Split (args ! 0) in
              if \<not> list_all (chain_flag False (Chains cfg)) srcchains
              then (Some ErrSrcChainMissing, [])
              else
                (let dstchains = Split (args ! 1) in
                 if \<not> list_all (chain_flag False (Chains cfg)) dstchains
                 then (Some ErrDstChainMissing, [])
                 else if length dstchains > length (Mnemonics cfg)
                 then (Some ErrMnemonicCount, [])
                 else
                   (None,
                    map (\<lambda>(k, chainname).
                           \<lparr>srcchain = chainname,
                            srcOutcome = SrcChainsend (NewClient E k) cfg dstchains
                                           chainname args\<rparr>)
                        (enumerate 0 srcchains))))))"

section \<open>Reading a trace\<close>

text \<open>The broadcasts of a trace in order, each as the sequence it was signed with and the
  response code it got.\<close>

fun txs :: "event list \<Rightarrow> (uint64 \<times> uint32) list" where
  "txs [] = []"
| "txs (EvBroadcast s c # es) = (s, c) # txs es"
| "txs (e # es) = txs es"

fun is_create :: "event \<Rightarrow> bool" where
  "is_create (EvCreate p c k s r n) = True"
| "is_create e = False"

text \<open>The message lists given to \<^verbatim>\<open>IbcSign\<close>, in order.\<close>

fun sign_msgs :: "event list \<Rightarrow> Msgs list" where
  "sign_msgs [] = []"
| "sign_msgs (EvSign s n m # es) = m # sign_msgs es"
| "sign_msgs (e # es) = sign_msgs es"

text \<open>Each broadcast but the first is signed with the sequence of the one before plus
  one, or with the same sequence when the one before got code \<open>0x14\<close>.\<close>

fun seq_chain :: "(uint64 \<times> uint32) list \<Rightarrow> bool" where
  "seq_chain (x # y # r) =
     (fst y = (if snd x = 0x14 then fst x else fst x + 1) \<and> seq_chain (y # r))"
| "seq_chain r = True"

definition seq_inv :: "state \<Rightarrow> bool" where
  "seq_inv st = seq_chain (txs (events st) @ [(accSeq st, 0)])"

lemma txs_append: "txs (xs @ ys) = txs xs @ txs ys"
  by (induction xs rule: txs.induct) simp_all

lemma sign_msgs_append: "sign_msgs (xs @ ys) = sign_msgs xs @ sign_msgs ys"
  by (induction xs rule: sign_msgs.induct) simp_all

lemma seq_chain_last_code:
  "seq_chain (xs @ [(s, c)]) \<Longrightarrow> seq_chain (xs @ [(s, c')])"
  by (induction xs rule: seq_chain.induct) auto

lemma seq_chain_extend:
  "seq_chain (xs @ [(s, c0)]) \<Longrightarrow>
     seq_chain (xs @ [(s, c), (if c = 0x14 then s else s + 1, c')])"
  by (induction xs rule: seq_chain.induct) auto

lemma seq_chain_butlast: "seq_chain (xs @ [x]) \<Longrightarrow> seq_chain xs"
  by (induction xs rule: seq_chain.induct) auto

lemma seq_chain_nth:
  "seq_chain xs \<Longrightarrow> 0 < i \<Longrightarrow> i < length xs \<Longrightarrow>
     fst (xs ! i) = (if snd (xs ! (i - 1)) = 0x14 then fst (xs ! (i - 1)) else fst (xs ! (i - 1)) + 1)"
proof (induction xs arbitrary: i rule: seq_chain.induct)
  case (1 x y r)
  show ?case
  proof (cases "i = 1")
    case True
    with "1.prems" show ?thesis by simp
  next
    case False
    with "1.prems" have "0 < i - 1" "i - 1 < length (y # r)" "seq_chain (y # r)"
      by auto
    from "1.IH" [OF this(3) this(1) this(2)] False "1.prems" show ?thesis
      by (cases i) (auto simp: nth_Cons split: nat.splits)
  qed
qed auto

section \<open>What the body of the inner loop does\<close>

lemma broadcast_one_Normal:
  assumes "broadcast_one N a msgs st = (Normal, st')"
  shows "\<exists>code. code \<noteq> 0x14 \<and> BroadcastTx N (nBroadcast st) = Some code \<and>
           events st' = events st @ [EvSign (accSeq st) (accNum a) msgs, EvBroadcast (accSeq st) code] \<and>
           accSeq st' = accSeq st + 1 \<and> blockTimes st' = blockTimes st \<and>
           targetHeight st' = targetHeight st \<and> nCreate st' = nCreate st"
  using assms
  by (auto simp: broadcast_one_def Let_def emit_def split: option.splits if_splits)

lemma broadcast_one_Break:
  assumes "broadcast_one N a msgs st = (Break, st')"
  shows "events st' = events st @ [EvSign (accSeq st) (accNum a) msgs, EvBroadcast (accSeq st) 0x14,
                                   Log Warn ''mempool is full, stopping'' []] \<and>
         accSeq st' = accSeq st \<and> blockTimes st' = blockTimes st \<and>
         targetHeight st' = targetHeight st \<and> nCreate st' = nCreate st"
  using assms
  by (auto simp: broadcast_one_def Let_def emit_def split: option.splits if_splits)

lemma broadcast_one_Return:
  assumes "broadcast_one N a msgs st = (Return e, st')"
  shows "events st' = events st @ [EvSign (accSeq st) (accNum a) msgs] \<and>
         accSeq st' = accSeq st \<and> blockTimes st' = blockTimes st \<and>
         targetHeight st' = targetHeight st \<and> nCreate st' = nCreate st"
  using assms
  by (auto simp: broadcast_one_def Let_def emit_def split: option.splits if_splits)

lemma broadcast_one_inv:
  assumes "seq_inv st" and "broadcast_one N a msgs st = (fl, st')"
  shows "seq_inv st'"
proof (cases fl)
  case (Return e)
  with assms broadcast_one_Return [of N a msgs st e st'] show ?thesis
    by (simp add: seq_inv_def txs_append)
next
  case Break
  with assms(2) have ev: "txs (events st') = txs (events st) @ [(accSeq st, 0x14)]"
    and sq: "accSeq st' = accSeq st"
    using broadcast_one_Break [of N a msgs st st'] by (simp_all add: txs_append)
  from assms(1) have "seq_chain (txs (events st) @ [(accSeq st, 0x14), (if (0x14::uint32) = 0x14 then accSeq st else accSeq st + 1, 0)])"
    unfolding seq_inv_def by (rule seq_chain_extend)
  with ev sq show ?thesis
    by (simp add: seq_inv_def)
next
  case Normal
  with assms(2) obtain code where c: "code \<noteq> 0x14"
    and ev: "txs (events st') = txs (events st) @ [(accSeq st, code)]"
    and sq: "accSeq st' = accSeq st + 1"
    using broadcast_one_Normal [of N a msgs st st'] by (auto simp: txs_append)
  from assms(1) have "seq_chain (txs (events st) @ [(accSeq st, code), (if code = 0x14 then accSeq st else accSeq st + 1, 0)])"
    unfolding seq_inv_def by (rule seq_chain_extend)
  with ev sq c show ?thesis
    by (simp add: seq_inv_def)
qed

text \<open>The response codes of the broadcasts of a trace, in order.\<close>

definition codes :: "event list \<Rightarrow> uint32 list" where
  "codes evs = map snd (txs evs)"

lemma codes_append: "codes (xs @ ys) = codes xs @ codes ys"
  by (simp add: codes_def txs_append)

section \<open>What the loops do\<close>

text \<open>What the inner loop appends to the trace, by the way it ends.\<close>

definition inner_post :: "LoopArgs \<Rightarrow> Msgs \<Rightarrow> int \<Rightarrow> flow \<Rightarrow> int \<Rightarrow> event list \<Rightarrow> bool" where
  "inner_post a msgs sent fl sent' new =
     (\<not> list_ex is_create new \<and> set (sign_msgs new) \<subseteq> {msgs} \<and>
      (case fl of
         Normal \<Rightarrow> 0x14 \<notin> set (codes new) \<and> sent' = sent + int (length (codes new))
       | Break \<Rightarrow>
           (\<exists>pre. codes new = pre @ [0x14] \<and> 0x14 \<notin> set pre \<and>
                  sent' = sent + int (length pre)) \<and>
           sent' < txNum a \<and> last new = Log Warn ''mempool is full, stopping'' []
       | Return e \<Rightarrow> 0x14 \<notin> set (codes new) \<and> sent' = sent + int (length (codes new))
                      \<and> sent' < txNum a))"

lemma fill_inner_trace:
  "fill_inner N a msgs sent st = (fl, sent', st') \<Longrightarrow>
     \<exists>new. events st' = events st @ new \<and> inner_post a msgs sent fl sent' new \<and>
           blockTimes st' = blockTimes st \<and> targetHeight st' = targetHeight st \<and>
           nCreate st' = nCreate st"
proof (induction N a msgs sent st rule: fill_inner.induct)
  case (1 N a msgs sent st)
  note fill_inner.simps [of N a msgs sent st, simp]
  show ?case
  proof (cases "sent < txNum a")
    case False
    with "1.prems" show ?thesis
      by (simp add: inner_post_def codes_def)
  next
    case True
    obtain f st1 where b: "broadcast_one N a msgs st = (f, st1)"
      by (cases "broadcast_one N a msgs st")
    show ?thesis
    proof (cases f)
      case (Return e)
      with True b "1.prems" have r: "fl = Return e" "sent' = sent" "st' = st1"
        by auto
      from b Return broadcast_one_Return [of N a msgs st e st1]
      have "events st1 = events st @ [EvSign (accSeq st) (accNum a) msgs]"
        "blockTimes st1 = blockTimes st" "targetHeight st1 = targetHeight st"
        "nCreate st1 = nCreate st"
        by simp_all
      with r True show ?thesis
        by (simp add: inner_post_def codes_def)
    next
      case Break
      with True b "1.prems" have r: "fl = Break" "sent' = sent" "st' = st1"
        by auto
      from b Break broadcast_one_Break [of N a msgs st st1]
      have "events st1 = events st @ [EvSign (accSeq st) (accNum a) msgs,
              EvBroadcast (accSeq st) 0x14, Log Warn ''mempool is full, stopping'' []]"
        "blockTimes st1 = blockTimes st" "targetHeight st1 = targetHeight st"
        "nCreate st1 = nCreate st"
        by simp_all
      with r True show ?thesis
        by (simp add: inner_post_def codes_def)
    next
      case Normal
      with True b "1.prems" have rec: "fill_inner N a msgs (sent + 1) st1 = (fl, sent', st')"
        by simp
      from "1.IH" [OF True b [symmetric] Normal rec]
      obtain new where n: "events st' = events st1 @ new"
        "inner_post a msgs (sent + 1) fl sent' new"
        "blockTimes st' = blockTimes st1" "targetHeight st' = targetHeight st1"
        "nCreate st' = nCreate st1"
        by blast
      from b Normal broadcast_one_Normal [of N a msgs st st1]
      obtain code where c: "code \<noteq> 0x14"
        "events st1 = events st @ [EvSign (accSeq st) (accNum a) msgs, EvBroadcast (accSeq st) code]"
        "blockTimes st1 = blockTimes st" "targetHeight st1 = targetHeight st"
        "nCreate st1 = nCreate st"
        by auto
      let ?new = "[EvSign (accSeq st) (accNum a) msgs, EvBroadcast (accSeq st) code] @ new"
      have "events st' = events st @ ?new"
        using n(1) c(2) by simp
      moreover have "inner_post a msgs sent fl sent' ?new"
      proof (cases fl)
        case (Return e)
        with n(2) c(1) show ?thesis
          by (simp add: inner_post_def codes_def)
      next
        case Break
        with n(2) obtain pre where p: "codes new = pre @ [0x14]" "0x14 \<notin> set pre"
          "sent' = sent + 1 + int (length pre)" "sent' < txNum a"
          "last new = Log Warn ''mempool is full, stopping'' []"
          "\<not> list_ex is_create new" "set (sign_msgs new) \<subseteq> {msgs}"
          by (auto simp: inner_post_def)
        from p(1) have ne: "new \<noteq> []"
          by (auto simp: codes_def)
        have 1: "\<not> list_ex is_create ?new"
          using p(6) by simp
        have 2: "set (sign_msgs ?new) \<subseteq> {msgs}"
          using p(7) by simp
        have 3: "last ?new = Log Warn ''mempool is full, stopping'' []"
          using ne p(5) by simp
        have "codes ?new = (code # pre) @ [0x14] \<and> 0x14 \<notin> set (code # pre) \<and>
                sent' = sent + int (length (code # pre))"
          using p(1-3) c(1) by (simp add: codes_def)
        then have 4: "\<exists>pre'. codes ?new = pre' @ [0x14] \<and> 0x14 \<notin> set pre' \<and>
                sent' = sent + int (length pre')"
          by (rule exI)
        show ?thesis
          unfolding inner_post_def Break flow.case
          using 1 2 3 4 p(4) by blast
      next
        case Normal
        with n(2) c(1) show ?thesis
          by (simp add: inner_post_def codes_def)
      qed
      ultimately show ?thesis
        using n(3-5) c(3-5) by auto
    qed
  qed
qed

lemma fill_inner_le:
  "fill_inner N a msgs sent st = (fl, sent', st') \<Longrightarrow> sent \<le> txNum a \<Longrightarrow> sent' \<le> txNum a"
proof (induction N a msgs sent st rule: fill_inner.induct)
  case (1 N a msgs sent st)
  note fill_inner.simps [of N a msgs sent st, simp]
  show ?case
  proof (cases "sent < txNum a")
    case False
    with "1.prems" show ?thesis by simp
  next
    case True
    obtain f st1 where b: "broadcast_one N a msgs st = (f, st1)"
      by (cases "broadcast_one N a msgs st")
    show ?thesis
    proof (cases f)
      case (Return e)
      with True b "1.prems" show ?thesis by auto
    next
      case Break
      with True b "1.prems" show ?thesis by auto
    next
      case Normal
      with True b "1.prems" have "fill_inner N a msgs (sent + 1) st1 = (fl, sent', st')"
        by simp
      from "1.IH" [OF True b [symmetric] Normal this] True show ?thesis
        by simp
    qed
  qed
qed

lemma fill_inner_inv:
  "fill_inner N a msgs sent st = (fl, sent', st') \<Longrightarrow> seq_inv st \<Longrightarrow> seq_inv st'"
proof (induction N a msgs sent st rule: fill_inner.induct)
  case (1 N a msgs sent st)
  note fill_inner.simps [of N a msgs sent st, simp]
  show ?case
  proof (cases "sent < txNum a")
    case False
    with "1.prems" show ?thesis by simp
  next
    case True
    obtain f st1 where b: "broadcast_one N a msgs st = (f, st1)"
      by (cases "broadcast_one N a msgs st")
    from "1.prems"(2) b have i1: "seq_inv st1"
      by (rule broadcast_one_inv)
    show ?thesis
    proof (cases f)
      case (Return e)
      with True b "1.prems" i1 show ?thesis by auto
    next
      case Break
      with True b "1.prems" i1 show ?thesis by auto
    next
      case Normal
      with True b "1.prems" have "fill_inner N a msgs (sent + 1) st1 = (fl, sent', st')"
        by simp
      from "1.IH" [OF True b [symmetric] Normal this i1] show ?thesis .
    qed
  qed
qed

text \<open>The outer loop runs its body at most once: when the inner loop ends normally,
  \<^verbatim>\<open>sent\<close> has reached \<^verbatim>\<open>txNum\<close>.\<close>

lemma fill_outer_done:
  "\<not> sent < txNum a \<Longrightarrow> fill_outer N a sent st = (None, sent, st)"
  by (simp add: fill_outer.simps)

lemma fill_outer_once:
  assumes "sent < txNum a"
  shows "fill_outer N a sent st =
     (let st1 = emit (EvCreate (srcPort a) (srcChannel a) (coin a) (accAddr a)
                        (receiver a) (msgNum a)) (st\<lparr>nCreate := nCreate st + 1\<rparr>) in
      case CreateTransferBot N (nCreate st) of
        None \<Rightarrow> (Some ErrCreateMsg, sent, st1)
      | Some msgs \<Rightarrow>
          (case fill_inner N a msgs sent st1 of
             (Return e, sent', st2) \<Rightarrow> (Some e, sent', st2)
           | (Break, sent', st2) \<Rightarrow> (None, sent', st2)
           | (Normal, sent', st2) \<Rightarrow> (None, sent', st2)))"
proof -
  have "fill_outer N a s' st2 = (None, s', st2)"
    if "fill_inner N a msgs sent st1 = (Normal, s', st2)" for msgs st1 s' st2
  proof -
    from fill_inner_sent [OF that] have "\<not> s' < txNum a"
      by simp
    then show ?thesis
      by (rule fill_outer_done)
  qed
  then show ?thesis
    using assms
    by (subst fill_outer.simps) (auto simp: Let_def split: option.splits prod.splits flow.splits)
qed

text \<open>What one run of the fill loop appends to the trace.\<close>

lemma fill_outer_trace:
  assumes "sent < txNum a" and "fill_outer N a sent st = (r, sent', st')"
  shows "\<exists>new. events st' = events st @
             EvCreate (srcPort a) (srcChannel a) (coin a) (accAddr a) (receiver a) (msgNum a) # new \<and>
           (case CreateTransferBot N (nCreate st) of
              None \<Rightarrow> new = [] \<and> r = Some ErrCreateMsg \<and> sent' = sent
            | Some msgs \<Rightarrow>
                (\<exists>fl. inner_post a msgs sent fl sent' new \<and>
                      r = (case fl of Return e \<Rightarrow> Some e | Break \<Rightarrow> None | Normal \<Rightarrow> None) \<and>
                      (fl = Normal \<longrightarrow> sent' = txNum a))) \<and>
           blockTimes st' = blockTimes st \<and> targetHeight st' = targetHeight st"
proof (cases "CreateTransferBot N (nCreate st)")
  case None
  with assms show ?thesis
    by (auto simp: fill_outer_once Let_def emit_def)
next
  case (Some msgs)
  let ?st1 = "emit (EvCreate (srcPort a) (srcChannel a) (coin a) (accAddr a)
                        (receiver a) (msgNum a)) (st\<lparr>nCreate := nCreate st + 1\<rparr>)"
  obtain fl s1 st2 where fi: "fill_inner N a msgs sent ?st1 = (fl, s1, st2)"
    by (cases "fill_inner N a msgs sent ?st1")
  with assms Some have res: "sent' = s1" "st' = st2"
    "r = (case fl of Return e \<Rightarrow> Some e | Break \<Rightarrow> None | Normal \<Rightarrow> None)"
    by (auto simp: fill_outer_once Let_def split: flow.splits)
  from fill_inner_trace [OF fi] obtain new where n: "events st2 = events ?st1 @ new"
    "inner_post a msgs sent fl s1 new" "blockTimes st2 = blockTimes ?st1"
    "targetHeight st2 = targetHeight ?st1"
    by blast
  from fill_inner_sent [OF fi] fill_inner_le [OF fi] assms(1)
  have "fl = Normal \<longrightarrow> s1 = txNum a"
    by auto
  with n res Some show ?thesis
    by (auto simp: emit_def)
qed

lemma fill_outer_inv:
  assumes "fill_outer N a sent st = (r, sent', st')" and "seq_inv st"
  shows "seq_inv st'"
proof (cases "sent < txNum a")
  case False
  with assms show ?thesis by (simp add: fill_outer_done)
next
  case True
  let ?st1 = "emit (EvCreate (srcPort a) (srcChannel a) (coin a) (accAddr a)
                        (receiver a) (msgNum a)) (st\<lparr>nCreate := nCreate st + 1\<rparr>)"
  from assms(2) have i1: "seq_inv ?st1"
    by (simp add: seq_inv_def emit_def txs_append)
  show ?thesis
  proof (cases "CreateTransferBot N (nCreate st)")
    case None
    with True assms(1) i1 show ?thesis
      by (auto simp: fill_outer_once Let_def)
  next
    case (Some msgs)
    obtain fl s1 st2 where fi: "fill_inner N a msgs sent ?st1 = (fl, s1, st2)"
      by (cases "fill_inner N a msgs sent ?st1")
    with True assms(1) Some have "st' = st2"
      by (auto simp: fill_outer_once Let_def split: flow.splits)
    with fill_inner_inv [OF fi i1] show ?thesis
      by simp
  qed
qed

lemma checkDrift_frame:
  "checkDrift N st = (r, st') \<Longrightarrow>
     txs (events st') = txs (events st) \<and> accSeq st' = accSeq st \<and>
     blockTimes st' = blockTimes st"
  by (auto simp: checkDrift_def Let_def emit_def txs_append split: option.splits if_splits)

lemma commitBlock_frame:
  "commitBlock N a sent st = (r, st') \<Longrightarrow>
     txs (events st') = txs (events st) \<and> accSeq st' = accSeq st"
  by (auto simp: commitBlock_def Let_def emit_def txs_append
           split: option.splits if_splits prod.splits)

lemma iteration_inv:
  assumes "iteration N a st = (r, st')" and "seq_inv st"
  shows "seq_inv st'"
proof -
  obtain r1 st1 where cd: "checkDrift N st = (r1, st1)"
    by (cases "checkDrift N st")
  with assms(2) checkDrift_frame [OF cd] have i1: "seq_inv st1"
    by (simp add: seq_inv_def)
  show ?thesis
  proof (cases r1)
    case (Some e)
    with cd assms(1) i1 show ?thesis
      by (auto simp: iteration_def)
  next
    case None
    obtain r2 sent st2 where fo: "fill_outer N a 0 st1 = (r2, sent, st2)"
      by (cases "fill_outer N a 0 st1")
    from fill_outer_inv [OF fo i1] have i2: "seq_inv st2" .
    show ?thesis
    proof (cases r2)
      case (Some e)
      with None cd fo assms(1) i2 show ?thesis
        by (auto simp: iteration_def)
    next
      case None
      let ?st3 = "if multi a then st2 else emit (Log Debug ''took %s broadcasting txs'' []) st2"
      from i2 have i3: "seq_inv ?st3"
        by (simp add: seq_inv_def emit_def txs_append)
      from None \<open>r1 = None\<close> cd fo assms(1) have "commitBlock N a sent ?st3 = (r, st')"
        by (simp add: iteration_def)
      from commitBlock_frame [OF this] i3 show ?thesis
        by (simp add: seq_inv_def)
    qed
  qed
qed

lemma block_loop_inv:
  "block_loop N a i st = (r, st') \<Longrightarrow> seq_inv st \<Longrightarrow> seq_inv st'"
proof (induction N a i st rule: block_loop.induct)
  case (1 N a i st)
  note block_loop.simps [of N a i st, simp]
  show ?case
  proof (cases "i < blocks a")
    case False
    with "1.prems" show ?thesis by simp
  next
    case True
    obtain r1 st1 where it: "iteration N a st = (r1, st1)"
      by (cases "iteration N a st")
    from iteration_inv [OF it "1.prems"(2)] have i1: "seq_inv st1" .
    show ?thesis
    proof (cases r1)
      case (Some e)
      with True it "1.prems" i1 show ?thesis by auto
    next
      case None
      with True it "1.prems" have "block_loop N a (i + 1) st1 = (r, st')"
        by simp
      from "1.IH" [OF True it [symmetric] None this i1] show ?thesis .
    qed
  qed
qed

lemma enter_loop_inv:
  assumes "txs (events st) = []"
  shows "seq_inv (snd (enter_loop N a st))"
proof (cases "GetBaseAccountInfo N")
  case None
  with assms show ?thesis
    by (simp add: enter_loop_def seq_inv_def)
next
  case (Some sn)
  obtain seq num where sn: "sn = (seq, num)"
    by (cases sn)
  show ?thesis
  proof (cases "Status N (nStatus st)")
    case None
    with Some sn assms show ?thesis
      by (simp add: enter_loop_def seq_inv_def Let_def)
  next
    case (Some h)
    note st = this
    show ?thesis
    proof (cases "WaitForHeight N (nWait st)")
      case False
      with st \<open>GetBaseAccountInfo N = Some sn\<close> sn assms show ?thesis
        by (simp add: enter_loop_def seq_inv_def Let_def emit_def txs_append)
    next
      case True
      with st \<open>GetBaseAccountInfo N = Some sn\<close> sn
      obtain st4 where s4: "enter_loop N a st = block_loop N (a\<lparr>accNum := num\<rparr>) 0 st4"
        and e4: "txs (events st4) = txs (events st)"
        by (simp add: enter_loop_def Let_def emit_def txs_append)
      from e4 assms have "seq_inv st4"
        by (simp add: seq_inv_def)
      with block_loop_inv [of N "a\<lparr>accNum := num\<rparr>" 0 st4] s4 show ?thesis
        by (cases "block_loop N (a\<lparr>accNum := num\<rparr>) 0 st4") auto
    qed
  qed
qed

lemma seq_inv_chain: "seq_inv st \<Longrightarrow> seq_chain (txs (events st))"
  unfolding seq_inv_def by (rule seq_chain_butlast)

text \<open>How the two functions that run a send loop can end: before the account is
  recovered, after it and before the account is queried, or through \<open>enter_loop\<close>.\<close>

lemma DstChainsend_ends:
  assumes "\<And>e. P (Some e, init_state)"
    and "\<And>e mn. P (Some e, emit (EvRecover mn) init_state)"
    and "\<And>a mn. P (enter_loop N a (emit (EvRecover mn) init_state))"
  shows "P (DstChainsend N k d info m cfg args)"
  by (simp add: DstChainsend_def start_loop_def Let_def assms split: option.splits prod.splits)

lemma IBCtransferCmd_ends:
  assumes "\<And>e. P (Some e, init_state)"
    and "\<And>e mn. P (Some e, emit (EvRecover mn) init_state)"
    and "\<And>N a mn. P (enter_loop N a (emit (EvRecover mn) init_state))"
  shows "P (IBCtransferCmd E args)"
  by (simp add: IBCtransferCmd_def start_loop_def Let_def assms split: option.splits prod.splits)

lemma seq_inv_init: "seq_inv init_state" "seq_inv (emit (EvRecover mn) init_state)"
  by (simp_all add: seq_inv_def init_state_def emit_def)

lemma enter_loop_inv_init: "seq_inv (snd (enter_loop N a (emit (EvRecover mn) init_state)))"
  by (rule enter_loop_inv) (simp add: emit_def init_state_def)

lemma DstChainsend_inv: "seq_inv (snd (DstChainsend N k d info m cfg args))"
  by (rule DstChainsend_ends) (simp_all add: seq_inv_init enter_loop_inv_init)

lemma IBCtransferCmd_inv: "seq_inv (snd (IBCtransferCmd E args))"
  by (rule IBCtransferCmd_ends) (simp_all add: seq_inv_init enter_loop_inv_init)

section \<open>A sample run\<close>

text \<open>Two configured chains and two mnemonics (the first two test vectors of BIP-39).\<close>

definition gaia_chain :: IBCchain where
  "gaia_chain =
     \<lparr>ChainId = ''gaia'', Rpc = ''http://localhost:26657'', Grpc = ''localhost:9090'',
      TokenDenom = ''uatom'', AccountHD = ''m/44'/118'/0'/0/0'', AccountaddrPrefix = ''cosmos'',
      DstAddress = ''cosmos1pacc0fr45hggcn8jrfhgnqf8vgyqna7r5sftql''\<rparr>"

definition iris_chain :: IBCchain where
  "iris_chain =
     \<lparr>ChainId = ''iris'', Rpc = ''http://localhost:36657'', Grpc = ''localhost:9190'',
      TokenDenom = ''uiris'', AccountHD = ''m/44'/118'/0'/0/0'', AccountaddrPrefix = ''iaa'',
      DstAddress = ''iaa1pacc0fr45hggcn8jrfhgnqf8vgyqna7r0t5jjn''\<rparr>"

definition mnemonic0 :: string where
  "mnemonic0 =
     ''abandon abandon abandon abandon abandon abandon abandon abandon abandon abandon abandon about''"

definition mnemonic1 :: string where
  "mnemonic1 =
     ''legal winner thank year wave sausage worth useful legal winner thank yellow''"

definition demo_cfg :: Config where
  "demo_cfg =
     \<lparr>Chains = [gaia_chain, iris_chain], Mnemonics = [mnemonic0, mnemonic1],
      GasLimit = 200000, FeeAmount = 2000, Memo = ''''\<rparr>"

text \<open>The node of chain \<open>gaia\<close> and the collaborators as one task sees them: the height is
  100 and grows by one with each query; the coin parser knows \<^verbatim>\<open>10uatom\<close>; \<open>uatom\<close> has
  no path, so its IBC denomination is itself; every transaction is accepted but the
  second, which is rejected with code \<open>0x14\<close>.\<close>

definition demo_node :: Node where
  "demo_node =
     \<lparr>GetNetworkChainID = Some ''gaia'',
      ParseCoinNormalized =
        (\<lambda>s. if s = ''10uatom'' then Some \<lparr>Denom = ''uatom'', Amount = 10\<rparr> else None),
      IBCDenom = (\<lambda>s. s),
      IBCRecoverAccountFromMnemonic =
        (\<lambda>m h p. Some (''cosmos19rl4cm2hmr8afy4kldpxz3fka4jguq0auqdal4'', ''key'')),
      GetBaseAccountInfo = Some (7, 3),
      Status = (\<lambda>k. Some (100 + of_nat k)),
      WaitForHeight = (\<lambda>k. True),
      BlockAt = (\<lambda>k. Some \<lparr>BlockTime = 1000 * int k, TxCount = 0\<rparr>),
      CreateTransferBot = (\<lambda>k. Some [''msg'']),
      IbcSign = (\<lambda>k. Some []),
      BroadcastTx = (\<lambda>k. Some (if k = 1 then 0x14 else 0))\<rparr>"

definition demo_env :: Env where
  "demo_env =
     \<lparr>SetLoggerOk = True, ConfigRead = Some demo_cfg,
      NewClient = (\<lambda>k. Some \<lparr>AllChainsTrace = Some [], View = (\<lambda>k. demo_node)\<rparr>)\<rparr>"

definition demo_args :: "string list" where
  "demo_args =
     [''gaia'', ''transfer'', ''channel-0'', ''cosmos1pacc0fr45hggcn8jrfhgnqf8vgyqna7r5sftql'',
      ''10uatom'', ''2'', ''3'', ''1'']"

lemma demo_run:
  "txs (events (snd (IBCtransferCmd demo_env demo_args))) =
     [(7, 0), (8, 0x14), (8, 0), (9, 0), (10, 0)]"
  by code_simp

section \<open>The sequence number\<close>

text \<open>
  C1. Within one send loop, that of \<^verbatim>\<open>DstChainsend\<close> or that of
  \<^verbatim>\<open>IBCtransferCmd\<close>, broadcast \<open>i\<close> is signed with the sequence number of broadcast
  \<open>i - 1\<close> plus one (on \<^verbatim>\<open>uint64\<close>), whatever response code broadcast \<open>i - 1\<close> got,
  unless that code was \<open>0x14\<close>: then the sequence was given back and broadcast \<open>i\<close> is
  signed with the same number again. The broadcasts are counted over the whole run, across
  blocks; each broadcast event carries the sequence of the signing event right before it
  (\<open>broadcast_one_Normal\<close>, \<open>broadcast_one_Break\<close>).
\<close>

theorem sequence_follows_previous_broadcast:
  assumes "bs = txs (events (snd (DstChainsend N k d info m cfg args))) \<or>
           bs = txs (events (snd (IBCtransferCmd E args')))"
    and "0 < i" and "i < length bs"
  shows "fst (bs ! i) =
           (if snd (bs ! (i - 1)) = 0x14 then fst (bs ! (i - 1)) else fst (bs ! (i - 1)) + 1)"
proof -
  from assms(1) have "seq_chain bs"
    using seq_inv_chain [OF DstChainsend_inv [of N k d info m cfg args]]
      seq_inv_chain [OF IBCtransferCmd_inv [of E args']]
    by auto
  then show ?thesis
    using assms(2,3) by (rule seq_chain_nth)
qed

theorem sequence_follows_previous_broadcast_witness:
  "txs (events (snd (IBCtransferCmd demo_env demo_args))) ! 1 = (8, 0x14) \<and>
   txs (events (snd (IBCtransferCmd demo_env demo_args))) ! 2 = (8, 0) \<and>
   txs (events (snd (IBCtransferCmd demo_env demo_args))) ! 3 = (9, 0) \<and>
   (0::nat) < 2 \<and> 2 < length (txs (events (snd (IBCtransferCmd demo_env demo_args)))) \<and>
   fst (txs (events (snd (IBCtransferCmd demo_env demo_args))) ! 2) =
     fst (txs (events (snd (IBCtransferCmd demo_env demo_args))) ! 1) \<and>
   fst (txs (events (snd (IBCtransferCmd demo_env demo_args))) ! 3) =
     fst (txs (events (snd (IBCtransferCmd demo_env demo_args))) ! 2) + 1"
  using sequence_follows_previous_broadcast
          [of "txs (events (snd (IBCtransferCmd demo_env demo_args)))"
              demo_node 0 iris_chain "[]" gaia_chain demo_cfg "[]"
              demo_env demo_args 2]
        sequence_follows_previous_broadcast
          [of "txs (events (snd (IBCtransferCmd demo_env demo_args)))"
              demo_node 0 iris_chain "[]" gaia_chain demo_cfg "[]"
              demo_env demo_args 3]
  by (simp add: demo_run)

section \<open>The head of an iteration\<close>

text \<open>
  C3. At the start of an iteration the height is queried. If it is not the target height
  minus one, exactly one warning is logged (``mismatching block height'', with the expected
  and the observed height) and the target becomes the observed height plus one (on
  \<^verbatim>\<open>int64\<close>); if it is, nothing is logged and the target stays as it is. The sequence
  number and the stored block times are not touched.
\<close>

theorem drift_check_corrects_target:
  assumes "Status N (nStatus st) = Some h"
  shows "fst (checkDrift N st) = None \<and>
         (h \<noteq> targetHeight st - 1 \<longrightarrow>
            targetHeight (snd (checkDrift N st)) = h + 1 \<and>
            events (snd (checkDrift N st)) =
              events st @ [Log Warn ''mismatching block height''
                             [(''expected'', I64 (targetHeight st - 1)), (''got'', I64 h)]]) \<and>
         (h = targetHeight st - 1 \<longrightarrow>
            targetHeight (snd (checkDrift N st)) = targetHeight st \<and>
            events (snd (checkDrift N st)) = events st) \<and>
         accSeq (snd (checkDrift N st)) = accSeq st \<and>
         blockTimes (snd (checkDrift N st)) = blockTimes st"
  using assms by (simp add: checkDrift_def Let_def emit_def)

theorem drift_check_corrects_target_witness:
  "Status demo_node (nStatus (init_state\<lparr>targetHeight := 50\<rparr>)) = Some 100 \<and>
   (100 :: int64) \<noteq> targetHeight (init_state\<lparr>targetHeight := 50\<rparr>) - 1 \<and>
   targetHeight (snd (checkDrift demo_node (init_state\<lparr>targetHeight := 50\<rparr>))) = 101 \<and>
   events (snd (checkDrift demo_node (init_state\<lparr>targetHeight := 50\<rparr>))) =
     [Log Warn ''mismatching block height'' [(''expected'', I64 49), (''got'', I64 100)]] \<and>
   (100 :: int64) = targetHeight (init_state\<lparr>targetHeight := 101\<rparr>) - 1 \<and>
   targetHeight (snd (checkDrift demo_node (init_state\<lparr>targetHeight := 101\<rparr>))) = 101 \<and>
   events (snd (checkDrift demo_node (init_state\<lparr>targetHeight := 101\<rparr>))) = []"
  using drift_check_corrects_target [of demo_node "init_state\<lparr>targetHeight := 50\<rparr>" 100]
        drift_check_corrects_target [of demo_node "init_state\<lparr>targetHeight := 101\<rparr>" 100]
  by (simp add: demo_node_def init_state_def)

section \<open>Sample loops\<close>

text \<open>The fixed arguments of the loop of \<open>demo_args\<close>, for one block of three
  transactions.\<close>

definition demo_fill :: LoopArgs where
  "demo_fill =
     \<lparr>multi = False, srcchainId = ''gaia'', dstchainId = '''', srcPort = ''transfer'',
      srcChannel = ''channel-0'', receiver = ''cosmos1pacc0fr45hggcn8jrfhgnqf8vgyqna7r5sftql'',
      coin = \<lparr>Denom = ''uatom'', Amount = 10\<rparr>,
      accAddr = ''cosmos19rl4cm2hmr8afy4kldpxz3fka4jguq0auqdal4'', privKey = ''key'',
      accNum = 3, blocks = 1, txNum = 3, msgNum = 1\<rparr>"

text \<open>A node like \<open>demo_node\<close> that answers every broadcast with code 5, and one that
  accepts every broadcast.\<close>

definition odd_node :: Node where
  "odd_node = demo_node\<lparr>BroadcastTx := (\<lambda>k. Some 5)\<rparr>"

definition calm_node :: Node where
  "calm_node = demo_node\<lparr>BroadcastTx := (\<lambda>k. Some 0)\<rparr>"

section \<open>Filling a block\<close>

text \<open>
  C2. For \<open>txNum \<ge> 0\<close>, when the fill loop of a block ends (without a fatal error),
  \<open>sent \<le> txNum\<close>; \<open>sent = txNum\<close> exactly when no broadcast made while filling the block
  got code \<open>0x14\<close>, and then every broadcast was counted; when one got it, it is the last
  broadcast of the block (the loop stopped early) and \<open>sent\<close> is the number of broadcasts
  before it, the rejected one not counted.
\<close>

theorem fill_block_sent_count:
  assumes "0 \<le> txNum a" and "fill_outer N a 0 st = (None, sent, st')"
  shows "let cs = codes (drop (length (events st)) (events st')) in
           sent \<le> txNum a \<and>
           (sent = txNum a) = (0x14 \<notin> set cs) \<and>
           (0x14 \<notin> set cs \<longrightarrow> sent = int (length cs)) \<and>
           (0x14 \<in> set cs \<longrightarrow>
              (\<exists>pre. cs = pre @ [0x14] \<and> 0x14 \<notin> set pre \<and> sent = int (length pre)))"
proof (cases "0 < txNum a")
  case False
  with assms(1) have "\<not> 0 < txNum a" by simp
  from fill_outer_done [OF this] assms(2) have "sent = 0" "st' = st"
    by simp_all
  with False assms(1) show ?thesis
    by (simp add: codes_def)
next
  case True
  from fill_outer_trace [OF True assms(2)] obtain new where
    ev: "events st' = events st @
           EvCreate (srcPort a) (srcChannel a) (coin a) (accAddr a) (receiver a) (msgNum a) # new"
    and post: "case CreateTransferBot N (nCreate st) of
              None \<Rightarrow> new = [] \<and> None = Some ErrCreateMsg \<and> sent = 0
            | Some msgs \<Rightarrow>
                (\<exists>fl. inner_post a msgs 0 fl sent new \<and>
                      None = (case fl of Return e \<Rightarrow> Some e | Break \<Rightarrow> None | Normal \<Rightarrow> None) \<and>
                      (fl = Normal \<longrightarrow> sent = txNum a))"
    by blast
  from post obtain msgs fl where ip: "inner_post a msgs 0 fl sent new"
    and rn: "None = (case fl of Return e \<Rightarrow> Some e | Break \<Rightarrow> None | Normal \<Rightarrow> None)"
    and full: "fl = Normal \<longrightarrow> sent = txNum a"
    by (cases "CreateTransferBot N (nCreate st)") auto
  from rn have fl: "fl = Break \<or> fl = Normal"
    by (cases fl) auto
  from ev have cs: "codes (drop (length (events st)) (events st')) = codes new"
    by (simp add: codes_def)
  from fl show ?thesis
  proof
    assume "fl = Break"
    with ip obtain pre where "codes new = pre @ [0x14]" "0x14 \<notin> set pre"
      "sent = int (length pre)" "sent < txNum a"
      by (auto simp: inner_post_def)
    then show ?thesis
      unfolding cs Let_def by auto
  next
    assume "fl = Normal"
    with ip full have "0x14 \<notin> set (codes new)" "sent = int (length (codes new))" "sent = txNum a"
      by (auto simp: inner_post_def)
    then show ?thesis
      unfolding cs Let_def by auto
  qed
qed

lemma demo_fill_run:
  "fst (fill_outer demo_node demo_fill 0 init_state) = None \<and>
   fst (snd (fill_outer demo_node demo_fill 0 init_state)) = 1 \<and>
   events (snd (snd (fill_outer demo_node demo_fill 0 init_state))) =
     [EvCreate ''transfer'' ''channel-0'' \<lparr>Denom = ''uatom'', Amount = 10\<rparr>
        ''cosmos19rl4cm2hmr8afy4kldpxz3fka4jguq0auqdal4''
        ''cosmos1pacc0fr45hggcn8jrfhgnqf8vgyqna7r5sftql'' 1,
      EvSign 0 3 [''msg''], EvBroadcast 0 0, EvSign 1 3 [''msg''], EvBroadcast 1 0x14,
      Log Warn ''mempool is full, stopping'' []]"
  by code_simp

theorem fill_block_sent_count_witness:
  "0 \<le> txNum demo_fill \<and>
   fst (fill_outer demo_node demo_fill 0 init_state) = None \<and>
   fst (snd (fill_outer demo_node demo_fill 0 init_state)) = 1 \<and>
   codes (events (snd (snd (fill_outer demo_node demo_fill 0 init_state)))) = [0] @ [0x14] \<and>
   fst (snd (fill_outer demo_node demo_fill 0 init_state)) < txNum demo_fill"
proof -
  let ?r = "fill_outer demo_node demo_fill 0 init_state"
  have r: "?r = (None, 1, snd (snd ?r))"
    using demo_fill_run by (cases ?r) simp
  have t: "0 \<le> txNum demo_fill"
    by (simp add: demo_fill_def)
  from fill_block_sent_count [OF t r] demo_fill_run show ?thesis
    by (simp add: codes_def init_state_def demo_fill_def)
qed

text \<open>
  C9, as the code has it. A run of the fill loop entered with \<open>sent < txNum\<close> calls
  \<^verbatim>\<open>CreateTransferBot\<close> exactly once, asking for \<open>msgNum\<close> messages, before anything is
  signed, and every transaction signed while filling the block carries the messages of
  that one call; entered with \<open>sent \<ge> txNum\<close> it builds and signs nothing. So one payload
  is built per block, and not one per broadcast.
\<close>

theorem payload_built_once_per_block:
  assumes "fill_outer N a sent st = (r, sent', st')"
  shows "(sent < txNum a \<longrightarrow>
            (\<exists>rest. events st' = events st @
                       EvCreate (srcPort a) (srcChannel a) (coin a) (accAddr a) (receiver a)
                         (msgNum a) # rest \<and>
                    \<not> list_ex is_create rest \<and>
                    (\<forall>m \<in> set (sign_msgs rest). CreateTransferBot N (nCreate st) = Some m))) \<and>
         (\<not> sent < txNum a \<longrightarrow> events st' = events st)"
proof (cases "sent < txNum a")
  case False
  from fill_outer_done [OF this] assms show ?thesis
    using False by simp
next
  case True
  from fill_outer_trace [OF True assms] obtain new where
    ev: "events st' = events st @
           EvCreate (srcPort a) (srcChannel a) (coin a) (accAddr a) (receiver a) (msgNum a) # new"
    and post: "case CreateTransferBot N (nCreate st) of
              None \<Rightarrow> new = [] \<and> r = Some ErrCreateMsg \<and> sent' = sent
            | Some msgs \<Rightarrow>
                (\<exists>fl. inner_post a msgs sent fl sent' new \<and>
                      r = (case fl of Return e \<Rightarrow> Some e | Break \<Rightarrow> None | Normal \<Rightarrow> None) \<and>
                      (fl = Normal \<longrightarrow> sent' = txNum a))"
    by blast
  have "\<not> list_ex is_create new \<and>
        (\<forall>m \<in> set (sign_msgs new). CreateTransferBot N (nCreate st) = Some m)"
    using post
    by (cases "CreateTransferBot N (nCreate st)") (auto simp: inner_post_def)
  with ev True show ?thesis
    by blast
qed

theorem payload_built_once_per_block_witness:
  "(0::int) < txNum demo_fill \<and>
   events (snd (snd (fill_outer demo_node demo_fill 0 init_state))) =
     events init_state @
     EvCreate (srcPort demo_fill) (srcChannel demo_fill) (coin demo_fill) (accAddr demo_fill)
       (receiver demo_fill) (msgNum demo_fill) #
     [EvSign 0 3 [''msg''], EvBroadcast 0 0, EvSign 1 3 [''msg''], EvBroadcast 1 0x14,
      Log Warn ''mempool is full, stopping'' []] \<and>
   CreateTransferBot demo_node (nCreate init_state) = Some [''msg'']"
  using payload_built_once_per_block
    [of demo_node demo_fill 0 init_state "fst (fill_outer demo_node demo_fill 0 init_state)"
        "fst (snd (fill_outer demo_node demo_fill 0 init_state))"
        "snd (snd (fill_outer demo_node demo_fill 0 init_state))"]
    demo_fill_run
  by (simp add: demo_fill_def demo_node_def init_state_def)

text \<open>
  C9 as stated fails: with three transactions asked for and every broadcast accepted, the
  block's fill loop broadcasts three transactions and builds one payload.
\<close>

theorem payload_per_broadcast_counterexample:
  "length (filter is_create (events (snd (snd (fill_outer calm_node demo_fill 0 init_state))))) = 1 \<and>
   length (txs (events (snd (snd (fill_outer calm_node demo_fill 0 init_state))))) = 3"
  by code_simp

section \<open>The events of a send loop\<close>

text \<open>The events a send loop with the fixed arguments \<open>a\<close> can add to the trace: no
  account recovery, and message building only with the route, coin, sender and message
  count of \<open>a\<close>.\<close>

fun loop_event :: "LoopArgs \<Rightarrow> event \<Rightarrow> bool" where
  "loop_event a (EvCreate p c k s r n) =
     (p = srcPort a \<and> c = srcChannel a \<and> k = coin a \<and> s = accAddr a \<and> r = receiver a \<and>
      n = msgNum a)"
| "loop_event a (EvRecover m) = False"
| "loop_event a e = True"

definition grows :: "LoopArgs \<Rightarrow> state \<Rightarrow> state \<Rightarrow> bool" where
  "grows a st st' = (\<exists>new. events st' = events st @ new \<and> list_all (loop_event a) new)"

lemma grows_refl: "grows a st st"
  by (simp add: grows_def)

lemma grows_trans: "grows a st st1 \<Longrightarrow> grows a st1 st2 \<Longrightarrow> grows a st st2"
  by (auto simp: grows_def)

lemma grows_emit: "loop_event a e \<Longrightarrow> grows a st (emit e st)"
  by (simp add: grows_def emit_def)

lemma grows_accNum: "grows (a\<lparr>accNum := n\<rparr>) st st' = grows a st st'"
proof -
  have "loop_event (a\<lparr>accNum := n\<rparr>) = loop_event a"
  proof (rule ext)
    fix e
    show "loop_event (a\<lparr>accNum := n\<rparr>) e = loop_event a e"
      by (cases e) simp_all
  qed
  then show ?thesis
    by (simp add: grows_def)
qed

lemma broadcast_one_grows: "broadcast_one N a msgs st = (fl, st') \<Longrightarrow> grows a st st'"
  by (cases fl)
     (auto simp: grows_def dest!: broadcast_one_Normal broadcast_one_Break broadcast_one_Return)

lemma fill_inner_grows:
  "fill_inner N a msgs sent st = (fl, sent', st') \<Longrightarrow> grows a st st'"
proof (induction N a msgs sent st rule: fill_inner.induct)
  case (1 N a msgs sent st)
  note fill_inner.simps [of N a msgs sent st, simp]
  show ?case
  proof (cases "sent < txNum a")
    case False
    with "1.prems" show ?thesis by (simp add: grows_refl)
  next
    case True
    obtain f st1 where b: "broadcast_one N a msgs st = (f, st1)"
      by (cases "broadcast_one N a msgs st")
    from broadcast_one_grows [OF b] have g1: "grows a st st1" .
    show ?thesis
    proof (cases f)
      case (Return e)
      with True b "1.prems" g1 show ?thesis by auto
    next
      case Break
      with True b "1.prems" g1 show ?thesis by auto
    next
      case Normal
      with True b "1.prems" have "fill_inner N a msgs (sent + 1) st1 = (fl, sent', st')"
        by simp
      from "1.IH" [OF True b [symmetric] Normal this] g1 show ?thesis
        by (rule grows_trans [rotated])
    qed
  qed
qed

lemma fill_outer_grows:
  assumes "fill_outer N a sent st = (r, sent', st')"
  shows "grows a st st'"
proof (cases "sent < txNum a")
  case False
  from fill_outer_done [OF this] assms show ?thesis
    by (simp add: grows_refl)
next
  case True
  let ?st1 = "emit (EvCreate (srcPort a) (srcChannel a) (coin a) (accAddr a)
                        (receiver a) (msgNum a)) (st\<lparr>nCreate := nCreate st + 1\<rparr>)"
  have g1: "grows a st ?st1"
    by (simp add: grows_def emit_def)
  show ?thesis
  proof (cases "CreateTransferBot N (nCreate st)")
    case None
    with True assms g1 show ?thesis
      by (auto simp: fill_outer_once Let_def)
  next
    case (Some msgs)
    obtain fl s1 st2 where fi: "fill_inner N a msgs sent ?st1 = (fl, s1, st2)"
      by (cases "fill_inner N a msgs sent ?st1")
    with True assms Some have "st' = st2"
      by (auto simp: fill_outer_once Let_def split: flow.splits)
    with fill_inner_grows [OF fi] g1 show ?thesis
      by (auto intro: grows_trans)
  qed
qed

lemma checkDrift_grows: "checkDrift N st = (r, st') \<Longrightarrow> grows a st st'"
  by (auto simp: checkDrift_def Let_def emit_def grows_def split: option.splits if_splits)

lemma commitBlock_grows: "commitBlock N a sent st = (r, st') \<Longrightarrow> grows a st st'"
  by (auto simp: commitBlock_def Let_def emit_def grows_def
           split: option.splits if_splits prod.splits)

lemma iteration_grows:
  assumes "iteration N a st = (r, st')"
  shows "grows a st st'"
proof -
  obtain r1 st1 where cd: "checkDrift N st = (r1, st1)"
    by (cases "checkDrift N st")
  from checkDrift_grows [OF cd] have g1: "grows a st st1" .
  show ?thesis
  proof (cases r1)
    case (Some e)
    with cd assms g1 show ?thesis
      by (auto simp: iteration_def)
  next
    case None
    obtain r2 sent st2 where fo: "fill_outer N a 0 st1 = (r2, sent, st2)"
      by (cases "fill_outer N a 0 st1")
    from fill_outer_grows [OF fo] g1 have g2: "grows a st st2"
      by (rule grows_trans [rotated])
    show ?thesis
    proof (cases r2)
      case (Some e)
      with None cd fo assms g2 show ?thesis
        by (auto simp: iteration_def)
    next
      case None
      let ?st3 = "if multi a then st2 else emit (Log Debug ''took %s broadcasting txs'' []) st2"
      have "grows a st2 ?st3"
        by (simp add: grows_refl grows_emit)
      with g2 have g3: "grows a st ?st3"
        by (rule grows_trans)
      from None \<open>r1 = None\<close> cd fo assms have "commitBlock N a sent ?st3 = (r, st')"
        by (simp add: iteration_def)
      from commitBlock_grows [OF this] g3 show ?thesis
        by (rule grows_trans [rotated])
    qed
  qed
qed

lemma block_loop_grows:
  "block_loop N a i st = (r, st') \<Longrightarrow> grows a st st'"
proof (induction N a i st rule: block_loop.induct)
  case (1 N a i st)
  note block_loop.simps [of N a i st, simp]
  show ?case
  proof (cases "i < blocks a")
    case False
    with "1.prems" show ?thesis by (simp add: grows_refl)
  next
    case True
    obtain r1 st1 where it: "iteration N a st = (r1, st1)"
      by (cases "iteration N a st")
    from iteration_grows [OF it] have g1: "grows a st st1" .
    show ?thesis
    proof (cases r1)
      case (Some e)
      with True it "1.prems" g1 show ?thesis by auto
    next
      case None
      with True it "1.prems" have "block_loop N a (i + 1) st1 = (r, st')"
        by simp
      from "1.IH" [OF True it [symmetric] None this] g1 show ?thesis
        by (rule grows_trans [rotated])
    qed
  qed
qed

lemma enter_loop_grows: "grows a st (snd (enter_loop N a st))"
proof (cases "GetBaseAccountInfo N")
  case None
  then show ?thesis
    by (simp add: enter_loop_def grows_refl)
next
  case (Some sn)
  obtain seq num where sn: "sn = (seq, num)"
    by (cases sn)
  show ?thesis
  proof (cases "Status N (nStatus st)")
    case None
    with Some sn show ?thesis
      by (simp add: enter_loop_def Let_def grows_def)
  next
    case (Some h)
    note st = this
    show ?thesis
    proof (cases "WaitForHeight N (nWait st)")
      case False
      with st \<open>GetBaseAccountInfo N = Some sn\<close> sn show ?thesis
        by (simp add: enter_loop_def Let_def emit_def grows_def)
    next
      case True
      with st \<open>GetBaseAccountInfo N = Some sn\<close> sn
      obtain st4 where s4: "enter_loop N a st = block_loop N (a\<lparr>accNum := num\<rparr>) 0 st4"
        and g4: "grows a st st4"
        by (simp add: enter_loop_def Let_def emit_def grows_def)
      obtain r st' where bl: "block_loop N (a\<lparr>accNum := num\<rparr>) 0 st4 = (r, st')"
        by (cases "block_loop N (a\<lparr>accNum := num\<rparr>) 0 st4")
      from block_loop_grows [OF bl] have "grows a st4 st'"
        by (simp add: grows_accNum)
      with g4 s4 bl show ?thesis
        by (auto intro: grows_trans)
    qed
  qed
qed

section \<open>Response codes\<close>

lemma broadcast_one_first:
  "broadcast_one N a msgs st = (fl, st') \<Longrightarrow>
     \<exists>r. events st' = events st @ EvSign (accSeq st) (accNum a) msgs # r"
  by (cases fl)
     (auto dest!: broadcast_one_Normal broadcast_one_Break broadcast_one_Return)

text \<open>
  C4. A broadcast answered with a code that is neither zero nor \<open>0x14\<close> counts as sent, is
  not logged and does not give its sequence number back. The body of the inner loop ends
  normally, having added to the trace the signing and the broadcast and no log record, and
  having increased the sequence number by one. The loop goes on from there with
  \<open>sent + 1\<close>: the \<open>sent\<close> it ends with counts this broadcast, its trace begins with these
  two events, and what follows them, when more is to be sent, is the signing of the next
  transaction with the next sequence number (the filling of the block continues); when
  nothing more is to be sent the loop ends normally with \<open>sent + 1\<close> and nothing added.
\<close>

theorem other_code_counts_as_sent:
  assumes "sent < txNum a"
    and "IbcSign N (nSign st) = Some txByte"
    and "BroadcastTx N (nBroadcast st) = Some code"
    and "code \<noteq> 0" and "code \<noteq> 0x14"
  shows "let st1 = st\<lparr>nSign := nSign st + 1, nBroadcast := nBroadcast st + 1,
                       events := events st @ [EvSign (accSeq st) (accNum a) msgs,
                                              EvBroadcast (accSeq st) code],
                       accSeq := accSeq st + 1\<rparr>;
             r = fill_inner N a msgs sent st
         in broadcast_one N a msgs st = (Normal, st1) \<and>
            r = fill_inner N a msgs (sent + 1) st1 \<and>
            sent + 1 \<le> fst (snd r) \<and>
            (\<exists>rest. events (snd (snd r)) =
                      events st @ [EvSign (accSeq st) (accNum a) msgs,
                                   EvBroadcast (accSeq st) code] @ rest \<and>
                    (if sent + 1 < txNum a
                     then \<exists>rest'. rest = EvSign (accSeq st + 1) (accNum a) msgs # rest'
                     else rest = [] \<and> r = (Normal, sent + 1, st1)))"
proof -
  define st1 where "st1 = st\<lparr>nSign := nSign st + 1, nBroadcast := nBroadcast st + 1,
                       events := events st @ [EvSign (accSeq st) (accNum a) msgs,
                                              EvBroadcast (accSeq st) code],
                       accSeq := accSeq st + 1\<rparr>"
  have b: "broadcast_one N a msgs st = (Normal, st1)"
    using assms by (simp add: broadcast_one_def Let_def emit_def st1_def)
  have eq: "fill_inner N a msgs sent st = fill_inner N a msgs (sent + 1) st1"
    using assms(1) b by (simp add: fill_inner.simps [of N a msgs sent st])
  obtain fl s' st' where r: "fill_inner N a msgs (sent + 1) st1 = (fl, s', st')"
    by (cases "fill_inner N a msgs (sent + 1) st1")
  from fill_inner_sent [OF r] have le: "sent + 1 \<le> s'"
    by simp
  have ev1: "events st1 = events st @ [EvSign (accSeq st) (accNum a) msgs,
                                      EvBroadcast (accSeq st) code]"
    and sq1: "accSeq st1 = accSeq st + 1"
    by (simp_all add: st1_def)
  have tail: "\<exists>rest. events st' = events st1 @ rest \<and>
                (if sent + 1 < txNum a
                 then \<exists>rest'. rest = EvSign (accSeq st1) (accNum a) msgs # rest'
                 else rest = [] \<and> (fl, s', st') = (Normal, sent + 1, st1))"
  proof (cases "sent + 1 < txNum a")
    case False
    with r have "(fl, s', st') = (Normal, sent + 1, st1)"
      by (simp add: fill_inner.simps [of N a msgs "sent + 1" st1])
    with False show ?thesis
      by simp
  next
    case True
    obtain f st2 where b2: "broadcast_one N a msgs st1 = (f, st2)"
      by (cases "broadcast_one N a msgs st1")
    from broadcast_one_first [OF b2] obtain r2 where
      e2: "events st2 = events st1 @ EvSign (accSeq st1) (accNum a) msgs # r2"
      by blast
    have "grows a st2 st'"
    proof (cases f)
      case (Return e)
      with True b2 r show ?thesis
        by (simp add: fill_inner.simps [of N a msgs "sent + 1" st1] grows_refl)
    next
      case Break
      with True b2 r show ?thesis
        by (simp add: fill_inner.simps [of N a msgs "sent + 1" st1] grows_refl)
    next
      case Normal
      with True b2 r have "fill_inner N a msgs (sent + 1 + 1) st2 = (fl, s', st')"
        by (simp add: fill_inner.simps [of N a msgs "sent + 1" st1])
      then show ?thesis
        by (rule fill_inner_grows)
    qed
    then obtain new where "events st' = events st2 @ new"
      by (auto simp: grows_def)
    with e2 True show ?thesis
      by simp
  qed
  from tail obtain rest where
    t1: "events st' = events st @ [EvSign (accSeq st) (accNum a) msgs,
                                   EvBroadcast (accSeq st) code] @ rest"
    and t2: "if sent + 1 < txNum a
             then \<exists>rest'. rest = EvSign (accSeq st + 1) (accNum a) msgs # rest'
             else rest = [] \<and> (fl, s', st') = (Normal, sent + 1, st1)"
    unfolding ev1 sq1 by auto
  have "broadcast_one N a msgs st = (Normal, st1) \<and>
        fill_inner N a msgs sent st = fill_inner N a msgs (sent + 1) st1 \<and>
        sent + 1 \<le> fst (snd (fill_inner N a msgs sent st)) \<and>
        (\<exists>rest. events (snd (snd (fill_inner N a msgs sent st))) =
                  events st @ [EvSign (accSeq st) (accNum a) msgs,
                               EvBroadcast (accSeq st) code] @ rest \<and>
                (if sent + 1 < txNum a
                 then \<exists>rest'. rest = EvSign (accSeq st + 1) (accNum a) msgs # rest'
                 else rest = [] \<and> fill_inner N a msgs sent st = (Normal, sent + 1, st1)))"
    using b eq le t1 t2 unfolding eq r fst_conv snd_conv by blast
  then show ?thesis
    unfolding Let_def st1_def .
qed

lemma odd_fill_run:
  "fst (snd (fill_inner odd_node demo_fill [''msg''] 0 init_state)) = 3 \<and>
   events (snd (snd (fill_inner odd_node demo_fill [''msg''] 0 init_state))) =
     [EvSign 0 3 [''msg''], EvBroadcast 0 5, EvSign 1 3 [''msg''], EvBroadcast 1 5,
      EvSign 2 3 [''msg''], EvBroadcast 2 5]"
  by code_simp

theorem other_code_counts_as_sent_witness:
  "(0::int) < txNum demo_fill \<and> IbcSign odd_node (nSign init_state) = Some [] \<and>
   BroadcastTx odd_node (nBroadcast init_state) = Some 5 \<and> (5::uint32) \<noteq> 0 \<and>
   (5::uint32) \<noteq> 0x14 \<and>
   broadcast_one odd_node demo_fill [''msg''] init_state =
     (Normal, init_state\<lparr>nSign := 1, nBroadcast := 1,
                events := [EvSign 0 3 [''msg''], EvBroadcast 0 5], accSeq := 1\<rparr>) \<and>
   (1::int) \<le> fst (snd (fill_inner odd_node demo_fill [''msg''] 0 init_state)) \<and>
   fst (snd (fill_inner odd_node demo_fill [''msg''] 0 init_state)) = 3 \<and>
   events (snd (snd (fill_inner odd_node demo_fill [''msg''] 0 init_state))) =
     [EvSign 0 3 [''msg''], EvBroadcast 0 5] @
     EvSign 1 3 [''msg''] # [EvBroadcast 1 5, EvSign 2 3 [''msg''], EvBroadcast 2 5]"
proof -
  have h: "(0::int) < txNum demo_fill" "IbcSign odd_node (nSign init_state) = Some []"
    "BroadcastTx odd_node (nBroadcast init_state) = Some 5" "(5::uint32) \<noteq> 0"
    "(5::uint32) \<noteq> 0x14"
    by (simp_all add: demo_fill_def odd_node_def demo_node_def init_state_def)
  note T = other_code_counts_as_sent [OF h, of "[''msg'']", unfolded Let_def]
  have st: "init_state\<lparr>nSign := nSign init_state + 1, nBroadcast := nBroadcast init_state + 1,
                events := events init_state @
                          [EvSign (accSeq init_state) (accNum demo_fill) [''msg''],
                           EvBroadcast (accSeq init_state) 5],
                accSeq := accSeq init_state + 1\<rparr> =
            init_state\<lparr>nSign := 1, nBroadcast := 1,
                events := [EvSign 0 3 [''msg''], EvBroadcast 0 5], accSeq := 1\<rparr>"
    by (simp add: init_state_def demo_fill_def)
  from T have 1: "broadcast_one odd_node demo_fill [''msg''] init_state =
     (Normal, init_state\<lparr>nSign := 1, nBroadcast := 1,
                events := [EvSign 0 3 [''msg''], EvBroadcast 0 5], accSeq := 1\<rparr>)"
    unfolding st by (rule conjunct1)
  from T have 2: "(0::int) + 1 \<le> fst (snd (fill_inner odd_node demo_fill [''msg''] 0 init_state))"
    by blast
  from 1 2 h odd_fill_run show ?thesis
    by simp
qed

section \<open>The multi-chain command\<close>

lemma chain_flag_iff: "chain_flag False cs name = (name \<in> ChainId ` set cs)"
  by (induction cs) auto

lemma Split_not_Nil: "Split s \<noteq> []"
  by (induction s) (auto split: list.splits)

text \<open>
  C7. With the logger set and the configuration read, the multi-chain command returns an
  error and has started no task whenever a name of the source list or of the destination
  list is not the id of a configured chain, or there are fewer mnemonics than destination
  names; otherwise it returns no error and has started one task per source name (at least
  one). An error of the command is never returned after a task was started.
\<close>

theorem multi_command_validates_before_spawning:
  assumes "length args = 6" and "SetLoggerOk E" and "ConfigRead E = Some cfg"
  shows "(if (\<exists>s \<in> set (Split (args ! 0)). s \<notin> ChainId ` set (Chains cfg)) \<or>
             (\<exists>d \<in> set (Split (args ! 1)). d \<notin> ChainId ` set (Chains cfg)) \<or>
             length (Mnemonics cfg) < length (Split (args ! 1))
          then fst (IBCMuiltTransferCmd E args) \<noteq> None \<and> snd (IBCMuiltTransferCmd E args) = []
          else fst (IBCMuiltTransferCmd E args) = None \<and>
               map srcchain (snd (IBCMuiltTransferCmd E args)) = Split (args ! 0) \<and>
               snd (IBCMuiltTransferCmd E args) \<noteq> [])"
proof -
  have m: "map (srcchain \<circ> (\<lambda>(k, chainname). \<lparr>srcchain = chainname, srcOutcome = f k chainname\<rparr>))
             (enumerate n xs) = xs" for f n and xs :: "string list"
    by (induction xs arbitrary: n) simp_all
  have e: "(enumerate 0 xs = []) = (xs = [])" for xs :: "string list"
    by (cases xs) simp_all
  show ?thesis
    using assms Split_not_Nil [of "args ! 0"]
    by (auto simp: IBCMuiltTransferCmd_def Let_def list_all_iff chain_flag_iff m e)
qed

definition demo_multi_args :: "string list" where
  "demo_multi_args = [''gaia'', ''gaia,iris'', ''10'', ''0'', ''1'', ''1'']"

lemma demo_ids: "ChainId ` set (Chains demo_cfg) = {''gaia'', ''iris''}"
  by (simp add: demo_cfg_def gaia_chain_def iris_chain_def)

definition missing_dst_args :: "string list" where
  "missing_dst_args = [''gaia'', ''iris,terra'', ''10'', ''0'', ''1'', ''1'']"

definition many_dst_args :: "string list" where
  "many_dst_args = [''gaia'', ''iris,iris,iris'', ''10'', ''0'', ''1'', ''1'']"

theorem multi_command_validates_before_spawning_witness:
  "length demo_multi_args = 6 \<and> SetLoggerOk demo_env \<and> ConfigRead demo_env = Some demo_cfg \<and>
   fst (IBCMuiltTransferCmd demo_env demo_multi_args) = None \<and>
   map srcchain (snd (IBCMuiltTransferCmd demo_env demo_multi_args)) = [''gaia''] \<and>
   fst (IBCMuiltTransferCmd demo_env missing_dst_args) \<noteq> None \<and>
   snd (IBCMuiltTransferCmd demo_env missing_dst_args) = [] \<and>
   fst (IBCMuiltTransferCmd demo_env many_dst_args) \<noteq> None \<and>
   snd (IBCMuiltTransferCmd demo_env many_dst_args) = []"
proof -
  have e: "SetLoggerOk demo_env" "ConfigRead demo_env = Some demo_cfg"
    by (simp_all add: demo_env_def)
  have l: "length demo_multi_args = 6" "length missing_dst_args = 6" "length many_dst_args = 6"
    by (simp_all add: demo_multi_args_def missing_dst_args_def many_dst_args_def)
  have s: "Split (demo_multi_args ! 0) = [''gaia'']"
    "Split (demo_multi_args ! Suc 0) = [''gaia'', ''iris'']"
    "Split (missing_dst_args ! 0) = [''gaia'']"
    "Split (missing_dst_args ! Suc 0) = [''iris'', ''terra'']"
    "Split (many_dst_args ! 0) = [''gaia'']"
    "Split (many_dst_args ! Suc 0) = [''iris'', ''iris'', ''iris'']"
    by (simp_all add: demo_multi_args_def missing_dst_args_def many_dst_args_def)
  have n: "length (Mnemonics demo_cfg) = 2"
    by (simp add: demo_cfg_def)
  from multi_command_validates_before_spawning [OF l(1) e]
  have 1: "fst (IBCMuiltTransferCmd demo_env demo_multi_args) = None \<and>
           map srcchain (snd (IBCMuiltTransferCmd demo_env demo_multi_args)) = [''gaia'']"
    by (simp add: s demo_ids n)
  from multi_command_validates_before_spawning [OF l(2) e]
  have 2: "fst (IBCMuiltTransferCmd demo_env missing_dst_args) \<noteq> None \<and>
           snd (IBCMuiltTransferCmd demo_env missing_dst_args) = []"
    by (simp add: s demo_ids n)
  from multi_command_validates_before_spawning [OF l(3) e]
  have 3: "fst (IBCMuiltTransferCmd demo_env many_dst_args) \<noteq> None \<and>
           snd (IBCMuiltTransferCmd demo_env many_dst_args) = []"
    by (simp add: s demo_ids n)
  from l(1) e 1 2 3 show ?thesis
    by blast
qed

lemma find_sub_eq:
  "find_sub cs d mainId =
     (if d \<noteq> mainId \<and> d \<in> ChainId ` set cs then Some (find_chain cs d) else None)"
  by (induction cs) auto

lemma find_chain_id: "d \<in> ChainId ` set cs \<Longrightarrow> ChainId (find_chain cs d) = d"
  by (induction cs) auto

lemma subchains_foldl:
  "foldl (\<lambda>subchains chainname.
            case find_sub cs chainname mainId of
              None \<Rightarrow> subchains
            | Some c \<Rightarrow> subchains @ [c]) acc ds =
     acc @ map (find_chain cs) (filter (\<lambda>d. d \<noteq> mainId \<and> d \<in> ChainId ` set cs) ds)"
  by (induction ds arbitrary: acc) (simp_all add: find_sub_eq)

lemma subchains_of_eq:
  "subchains_of cs mainId ds =
     map (find_chain cs) (filter (\<lambda>d. d \<noteq> mainId \<and> d \<in> ChainId ` set cs) ds)"
  by (simp add: subchains_of_def subchains_foldl)

lemma events_init: "events init_state = []"
  by (simp add: init_state_def)

lemma events_emit: "events (emit e st) = events st @ [e]"
  by (simp add: emit_def)

lemma DstChainsend_recover:
  assumes "EvRecover mn \<in> set (events (snd (DstChainsend N k d info m cfg args)))"
  shows "index (Mnemonics cfg) k = Some mn"
proof -
  have *: "mn' = mn"
    if "EvRecover mn \<in> set (events (snd (enter_loop N a (emit (EvRecover mn') init_state))))"
    for a mn'
  proof -
    from enter_loop_grows [of a "emit (EvRecover mn') init_state" N]
    obtain new where "events (snd (enter_loop N a (emit (EvRecover mn') init_state))) =
        [EvRecover mn'] @ new" "list_all (loop_event a) new"
      by (auto simp: grows_def events_emit events_init)
    with that show ?thesis
      by (auto simp: list_all_iff)
  qed
  show ?thesis
    using assms
    by (auto simp: DstChainsend_def start_loop_def Let_def events_emit events_init dest: *
             split: option.splits prod.splits if_splits)
qed


text \<open>
  C8, as the code has it. For a source chain whose connection and routing table are
  obtained, \<^verbatim>\<open>SrcChainsend\<close> starts exactly one \<^verbatim>\<open>DstChainsend\<close> per name of the
  destination list that is a configured chain other than the source chain itself, in the
  order of the list, and none for a destination that is the source chain. The tasks are
  numbered from 0 in the order they are started, and a task recovers its account from no
  mnemonic but \<^verbatim>\<open>cfg.Custom.Mnemonics\<close> at its own number; so the tasks of one source
  chain use distinct positions of the mnemonic list, and a task's number is the position
  of its destination in the destination list only when no name before it was left out.
\<close>

theorem one_task_per_foreign_destination:
  assumes "client = Some conn" and "AllChainsTrace conn = Some info"
  shows "let mainchain = find_chain (Chains cfg) chainname;
             tasks = snd (SrcChainsend client cfg dstchains chainname args)
         in fst (SrcChainsend client cfg dstchains chainname args) = None \<and>
            map (\<lambda>t. ChainId (dstchaininfo t)) tasks =
              filter (\<lambda>d. d \<noteq> ChainId mainchain \<and> d \<in> ChainId ` set (Chains cfg)) dstchains \<and>
            map accountindex tasks = [0..<length tasks] \<and>
            (\<forall>t \<in> set tasks.
               outcome t = DstChainsend (View conn (accountindex t)) (accountindex t)
                             (dstchaininfo t) info mainchain cfg args \<and>
               (\<forall>mn. EvRecover mn \<in> set (events (snd (outcome t))) \<longrightarrow>
                     index (Mnemonics cfg) (accountindex t) = Some mn))"
proof -
  let ?main = "find_chain (Chains cfg) chainname"
  let ?P = "\<lambda>d. d \<noteq> ChainId ?main \<and> d \<in> ChainId ` set (Chains cfg)"
  let ?subs = "map (find_chain (Chains cfg)) (filter ?P dstchains)"
  let ?mk = "\<lambda>(k, i). \<lparr>accountindex = k, dstchaininfo = i,
                outcome = DstChainsend (View conn k) k i info ?main cfg args\<rparr>"
  let ?tasks = "map ?mk (enumerate 0 ?subs)"
  have r: "SrcChainsend client cfg dstchains chainname args = (None, ?tasks)"
    using assms by (simp add: SrcChainsend_def Let_def subchains_of_eq)
  have ids: "map (\<lambda>t. ChainId (dstchaininfo t)) ?tasks = map ChainId ?subs"
    by (simp add: comp_def case_prod_unfold flip: map_map [of ChainId snd, unfolded comp_def])
  have "map ChainId ?subs = filter ?P dstchains"
    by (induction dstchains) (simp_all add: find_chain_id)
  with ids have 1: "map (\<lambda>t. ChainId (dstchaininfo t)) ?tasks = filter ?P dstchains"
    by simp
  have "map accountindex ?tasks = map fst (enumerate 0 ?subs)"
    by (simp add: comp_def case_prod_unfold)
  then have 2: "map accountindex ?tasks = [0..<length ?tasks]"
    by simp
  have 3: "outcome t = DstChainsend (View conn (accountindex t)) (accountindex t)
                             (dstchaininfo t) info ?main cfg args"
    if "t \<in> set ?tasks" for t
    using that by auto
  have 4: "index (Mnemonics cfg) (accountindex t) = Some mn"
    if "t \<in> set ?tasks" "EvRecover mn \<in> set (events (snd (outcome t)))" for t mn
    using that(2) unfolding 3 [OF that(1)] by (rule DstChainsend_recover)
  from 1 2 3 4 show ?thesis
    unfolding r Let_def fst_conv snd_conv by blast
qed

definition demo_conn :: Conn where
  "demo_conn = \<lparr>AllChainsTrace = Some [], View = (\<lambda>k. demo_node)\<rparr>"

theorem one_task_per_foreign_destination_witness:
  "NewClient demo_env 0 = Some demo_conn \<and> AllChainsTrace demo_conn = Some [] \<and>
   fst (SrcChainsend (NewClient demo_env 0) demo_cfg [''gaia'', ''iris''] ''gaia'' demo_multi_args) = None \<and>
   map (\<lambda>t. ChainId (dstchaininfo t))
     (snd (SrcChainsend (NewClient demo_env 0) demo_cfg [''gaia'', ''iris''] ''gaia'' demo_multi_args)) =
     [''iris''] \<and>
   map accountindex
     (snd (SrcChainsend (NewClient demo_env 0) demo_cfg [''gaia'', ''iris''] ''gaia'' demo_multi_args)) =
     [0]"
proof -
  let ?tasks = "snd (SrcChainsend (NewClient demo_env 0) demo_cfg [''gaia'', ''iris''] ''gaia'' demo_multi_args)"
  have h: "NewClient demo_env 0 = Some demo_conn" "AllChainsTrace demo_conn = Some []"
    by (simp_all add: demo_env_def demo_conn_def)
  have m: "ChainId (find_chain (Chains demo_cfg) ''gaia'') = ''gaia''"
    by (simp add: demo_cfg_def gaia_chain_def iris_chain_def)
  from one_task_per_foreign_destination [OF h, of demo_cfg "''gaia''" "[''gaia'', ''iris'']" demo_multi_args]
  have 1: "fst (SrcChainsend (NewClient demo_env 0) demo_cfg [''gaia'', ''iris''] ''gaia'' demo_multi_args) = None"
    and 2: "map (\<lambda>t. ChainId (dstchaininfo t)) ?tasks = [''iris'']"
    and 3: "map accountindex ?tasks = [0..<length ?tasks]"
    by (simp_all add: Let_def m demo_ids)
  from 2 have "length ?tasks = 1"
    by (metis length_map length_Cons list.size(3) One_nat_def)
  with 3 have "map accountindex ?tasks = [0]"
    by simp
  with h 1 2 show ?thesis
    by blast
qed

text \<open>
  C8 as stated fails. With the source chain \<open>gaia\<close> and the destination list \<open>gaia,iris\<close>
  the command passes its checks and starts one task for the source, which starts one send
  loop only, for \<open>iris\<close>; that loop recovers its account from the first mnemonic, while
  \<open>iris\<close> is second in the destination list.
\<close>

theorem one_loop_per_destination_counterexample:
  "fst (IBCMuiltTransferCmd demo_env demo_multi_args) = None \<and>
   map (\<lambda>s. (srcchain s,
              map (\<lambda>t. (accountindex t, ChainId (dstchaininfo t), take 1 (events (snd (outcome t)))))
                (snd (srcOutcome s))))
     (snd (IBCMuiltTransferCmd demo_env demo_multi_args)) =
     [(''gaia'', [(0, ''iris'', [EvRecover mnemonic0])])] \<and>
   Split (demo_multi_args ! 1) = [''gaia'', ''iris''] \<and>
   Mnemonics demo_cfg = [mnemonic0, mnemonic1]"
  by code_simp

section \<open>The run parameters\<close>

text \<open>
  C6, as the code has it. The arguments \<open>blocks\<close>, \<open>tx-num\<close> and \<open>msg-num\<close> are parsed with
  \<^verbatim>\<open>strconv.Atoi\<close>, which accepts negative integers too. When \<^verbatim>\<open>Atoi\<close> rejects one
  of the three, \<^verbatim>\<open>IBCtransferCmd\<close> fails with an error and has done nothing, and
  \<^verbatim>\<open>DstChainsend\<close> returns an error before anything is built, signed or broadcast (the
  multi-chain command drops that error with the task's result).
\<close>

theorem unparsable_count_stops_before_loop:
  "(length args = 8 \<and>
      (Atoi (args ! 5) = None \<or> Atoi (args ! 6) = None \<or> Atoi (args ! 7) = None) \<longrightarrow>
      fst (IBCtransferCmd E args) \<noteq> None \<and> events (snd (IBCtransferCmd E args)) = []) \<and>
   (length args' = 6 \<and>
      (Atoi (args' ! 3) = None \<or> Atoi (args' ! 4) = None \<or> Atoi (args' ! 5) = None) \<longrightarrow>
      fst (DstChainsend N k d info m cfg args') \<noteq> None \<and>
      \<not> list_ex is_create (events (snd (DstChainsend N k d info m cfg args'))) \<and>
      sign_msgs (events (snd (DstChainsend N k d info m cfg args'))) = [] \<and>
      txs (events (snd (DstChainsend N k d info m cfg args'))) = [])"
proof (intro conjI impI)
  assume a: "length args = 8 \<and>
      (Atoi (args ! 5) = None \<or> Atoi (args ! 6) = None \<or> Atoi (args ! 7) = None)"
  then show "fst (IBCtransferCmd E args) \<noteq> None"
    by (auto simp: IBCtransferCmd_def Let_def split: option.splits)
  from a show "events (snd (IBCtransferCmd E args)) = []"
    by (auto simp: IBCtransferCmd_def Let_def events_init split: option.splits)
next
  assume a: "length args' = 6 \<and>
      (Atoi (args' ! 3) = None \<or> Atoi (args' ! 4) = None \<or> Atoi (args' ! 5) = None)"
  let ?r = "DstChainsend N k d info m cfg args'"
  from a have "(\<exists>e. ?r = (Some e, init_state)) \<or> (\<exists>e mn. ?r = (Some e, emit (EvRecover mn) init_state))"
    by (auto simp: DstChainsend_def Let_def index_def split: option.splits prod.splits)
  then show "fst ?r \<noteq> None" "\<not> list_ex is_create (events (snd ?r))"
    "sign_msgs (events (snd ?r)) = []" "txs (events (snd ?r)) = []"
    by (auto simp: events_init events_emit)
qed

definition text_args :: "string list" where
  "text_args = [''gaia'', ''transfer'', ''channel-0'', ''cosmos1pacc0fr45hggcn8jrfhgnqf8vgyqna7r5sftql'',
     ''10uatom'', ''2'', ''many'', ''1'']"

definition text_multi_args :: "string list" where
  "text_multi_args = [''gaia'', ''iris'', ''10'', ''2'', ''3'', ''1.5'']"

lemma Atoi_rejects: "Atoi ''many'' = None" "Atoi ''1.5'' = None" "Atoi '''' = None"
  by (simp_all add: Atoi_def is_digit_def)

theorem unparsable_count_stops_before_loop_witness:
  "length text_args = 8 \<and> Atoi (text_args ! 6) = None \<and>
   fst (IBCtransferCmd demo_env text_args) \<noteq> None \<and>
   events (snd (IBCtransferCmd demo_env text_args)) = [] \<and>
   length text_multi_args = 6 \<and> Atoi (text_multi_args ! 5) = None \<and>
   fst (DstChainsend demo_node 0 (find_chain (Chains demo_cfg) ''iris'') [] 
          (find_chain (Chains demo_cfg) ''gaia'') demo_cfg text_multi_args) \<noteq> None \<and>
   txs (events (snd (DstChainsend demo_node 0 (find_chain (Chains demo_cfg) ''iris'') []
          (find_chain (Chains demo_cfg) ''gaia'') demo_cfg text_multi_args))) = []"
proof -
  have h: "length text_args = 8" "Atoi (text_args ! 6) = None"
    "length text_multi_args = 6" "Atoi (text_multi_args ! 5) = None"
    by (simp_all add: text_args_def text_multi_args_def Atoi_rejects)
  with unparsable_count_stops_before_loop
         [of text_args demo_env text_multi_args demo_node 0 "find_chain (Chains demo_cfg) ''iris''" "[]"
             "find_chain (Chains demo_cfg) ''gaia''" demo_cfg]
  show ?thesis
    by blast
qed

text \<open>
  C6 as stated fails. \<open>-5\<close> is not a non-negative integer, yet the single-chain command
  given it for \<open>blocks\<close> ends without an error; and the multi-chain command ends without an
  error even when \<open>msg-num\<close> is no integer at all: its one task returns the error of
  \<^verbatim>\<open>Atoi\<close>, which is dropped.
\<close>

definition negative_args :: "string list" where
  "negative_args = [''gaia'', ''transfer'', ''channel-0'', ''cosmos1pacc0fr45hggcn8jrfhgnqf8vgyqna7r5sftql'',
     ''10uatom'', ''-5'', ''3'', ''1'']"

theorem negative_count_accepted_counterexample:
  "Atoi ''-5'' = Some (- 5) \<and>
   fst (IBCtransferCmd demo_env negative_args) = None \<and>
   fst (IBCMuiltTransferCmd demo_env text_multi_args) = None \<and>
   map (\<lambda>s. (srcchain s, fst (srcOutcome s),
              map (\<lambda>t. (ChainId (dstchaininfo t), fst (outcome t))) (snd (srcOutcome s))))
     (snd (IBCMuiltTransferCmd demo_env text_multi_args)) =
     [(''gaia'', None, [(''iris'', Some ErrMsgNumNotInt)])]"
  by code_simp

section \<open>The stored block times\<close>

text \<open>A node whose height has moved on by four where one was expected when the second
  iteration starts, and arguments that ask for two blocks and no transaction in them.\<close>

definition drift_node :: Node where
  "drift_node =
     demo_node\<lparr>Status := (\<lambda>k. Some (if k = 2 then 105 else 100 + of_nat k))\<rparr>"

definition drift_env :: Env where
  "drift_env =
     \<lparr>SetLoggerOk = True, ConfigRead = Some demo_cfg,
      NewClient = (\<lambda>k. Some \<lparr>AllChainsTrace = Some [], View = (\<lambda>k. drift_node)\<rparr>)\<rparr>"

definition drift_args :: "string list" where
  "drift_args = [''gaia'', ''transfer'', ''channel-0'', ''cosmos1pacc0fr45hggcn8jrfhgnqf8vgyqna7r5sftql'',
     ''10uatom'', ''2'', ''0'', ''1'']"

text \<open>
  C5 fails on the code. In a run of two blocks whose second iteration corrects the target
  from 103 to 106, the time of block 102 is looked for under 105, not found and never
  deleted: after the run the times of two blocks are stored.
\<close>

theorem block_times_kept_after_drift:
  "fst (IBCtransferCmd drift_env drift_args) = None \<and>
   targetHeight (snd (IBCtransferCmd drift_env drift_args)) = 107 \<and>
   blockTimes (snd (IBCtransferCmd drift_env drift_args)) 102 = Some 0 \<and>
   blockTimes (snd (IBCtransferCmd drift_env drift_args)) 106 = Some 1000"
  by code_simp

section \<open>A destination without a route\<close>






















end
